theory Spec2Isabelle
  imports Complex_Main "HOL-Library.Sublist" "HOL-Library.List_Lexorder" "HOL-Library.AList" "HOL-Library.Log_Nat"
begin

section \<open>Python values shared by the scripts\<close>

text \<open>
  The exceptions the modelled code can raise. \<open>ValueError\<close> is what
  \<^verbatim>\<open>itertools.combinations\<close> raises for a negative size, \<open>IndexError\<close> what \<^verbatim>\<open>xs[0]\<close>
  raises on an empty list.
\<close>

datatype py_error = ValueError | IndexError

section \<open>Python floats\<close>

text \<open>
  A Python \<^verbatim>\<open>float\<close> is an IEEE 754 binary64 number. \<open>Finite x\<close> stands for the double of
  value \<open>x\<close>, a rational \<open>m * 2 ^ e\<close> with \<open>\<bar>m\<bar> < 2 ^ 53\<close>, \<open>- 1074 \<le> e\<close> and
  \<open>\<bar>x\<bar> < 2 ^ 1024\<close>; the sign of a zero is not kept, as it shows in no comparison, in no
  sum with a number other than zero and in no \<^verbatim>\<open>abs\<close>. Every operation gives the exact
  result rounded to the nearest double, a tie going to the even significand, and a
  rounded result beyond the largest double is an infinity.
\<close>

datatype double = Finite rat | PosInf | NegInf | NaN

text \<open>The nearest integer, a tie going to the even one.\<close>

definition round_even :: "rat \<Rightarrow> int" where
  "round_even q =
     (let f = \<lfloor>q\<rfloor>; r = q - of_int f
      in if r < 1 / 2 then f else if 1 / 2 < r then f + 1 else if even f then f else f + 1)"

text \<open>The binary exponent of a number other than zero: \<open>2 powi expo x \<le> \<bar>x\<bar> < 2 powi (expo x + 1)\<close>.\<close>

definition expo :: "rat \<Rightarrow> int" where
  "expo x = (if 1 \<le> \<bar>x\<bar> then bitlen \<lfloor>\<bar>x\<bar>\<rfloor> - 1 else - bitlen (\<lceil>1 / \<bar>x\<bar>\<rceil> - 1))"

text \<open>
  Rounding to a double: 53 significant bits, the last one worth \<open>2 powi (expo x - 52)\<close>
  and never less than \<open>2 powi (- 1074)\<close>; a rounded value of \<open>2 ^ 1024\<close> or more overflows.
  A decimal literal of the source denotes the double its value rounds to.
\<close>

definition round_double :: "rat \<Rightarrow> double" where
  "round_double x =
     (if x = 0 then Finite 0
      else
        (let e = max (expo x - 52) (- 1074);
             y = of_int (round_even (x / 2 powi e)) * 2 powi e
         in if 1024 \<le> expo y then (if 0 < x then PosInf else NegInf) else Finite y))"

fun double_neg :: "double \<Rightarrow> double" where
  "double_neg (Finite x) = Finite (- x)"
| "double_neg PosInf = NegInf"
| "double_neg NegInf = PosInf"
| "double_neg NaN = NaN"

fun double_add :: "double \<Rightarrow> double \<Rightarrow> double" where
  "double_add NaN b = NaN"
| "double_add a NaN = NaN"
| "double_add PosInf NegInf = NaN"
| "double_add NegInf PosInf = NaN"
| "double_add PosInf b = PosInf"
| "double_add a PosInf = PosInf"
| "double_add NegInf b = NegInf"
| "double_add a NegInf = NegInf"
| "double_add (Finite x) (Finite y) = round_double (x + y)"

fun double_abs :: "double \<Rightarrow> double" where
  "double_abs (Finite x) = Finite \<bar>x\<bar>"
| "double_abs PosInf = PosInf"
| "double_abs NegInf = PosInf"
| "double_abs NaN = NaN"

fun double_less :: "double \<Rightarrow> double \<Rightarrow> bool" where
  "double_less NaN b = False"
| "double_less a NaN = False"
| "double_less (Finite x) (Finite y) = (x < y)"
| "double_less a NegInf = False"
| "double_less PosInf b = False"
| "double_less NegInf b = True"
| "double_less a PosInf = True"

fun double_less_eq :: "double \<Rightarrow> double \<Rightarrow> bool" where
  "double_less_eq NaN b = False"
| "double_less_eq a NaN = False"
| "double_less_eq (Finite x) (Finite y) = (x \<le> y)"
| "double_less_eq NegInf b = True"
| "double_less_eq a PosInf = True"
| "double_less_eq a NegInf = False"
| "double_less_eq PosInf b = False"

text \<open>
  The operators of the scripts at this type. Subtraction is addition of the negated
  operand; \<open>0\<close> is what the integer \<open>0\<close>, from which \<^verbatim>\<open>sum\<close> starts, is as a float.
\<close>

instantiation double :: "{zero, plus, minus, abs, ord}"
begin

definition zero_double :: double where
  "zero_double = Finite 0"

definition plus_double :: "double \<Rightarrow> double \<Rightarrow> double" where
  "plus_double a b = double_add a b"

definition minus_double :: "double \<Rightarrow> double \<Rightarrow> double" where
  "minus_double a b = double_add a (double_neg b)"

definition abs_double :: "double \<Rightarrow> double" where
  "abs_double a = double_abs a"

definition less_double :: "double \<Rightarrow> double \<Rightarrow> bool" where
  "less_double a b = double_less a b"

definition less_eq_double :: "double \<Rightarrow> double \<Rightarrow> bool" where
  "less_eq_double a b = double_less_eq a b"

instance ..

end

section \<open>Reconciliation search: \<^verbatim>\<open>find_sum.py\<close>\<close>

text \<open>
  The search is written for any type of numbers that has the operations the script uses
  (\<open>0\<close>, \<open>+\<close>, \<open>-\<close>, \<^verbatim>\<open>abs\<close> and \<open><\<close>), with no law assumed of them, and takes the tolerance,
  the literal \<open>0.05\<close> of line 21, as an argument. The lists and the target of the script
  are the doubles that their decimal literals, written here as fractions, denote.
\<close>

definition deposit_literals :: "rat list" where
  "deposit_literals =
     [5, 30, 700, 49998 / 100, 4085 / 100, 48993 / 100, 500, 500, 1000, 302, 500, 83, 5, 10,
      50062 / 100, 2, 150334 / 100, 10776 / 100, 2137 / 100]"

definition transfer_literals :: "rat list" where
  "transfer_literals = [37248 / 100, 594150 / 100, 147920 / 100, 112562 / 100, 102788 / 100]"

definition div_literals :: "rat list" where
  "div_literals = [544 / 100, 816 / 100]"

definition all_literals :: "rat list" where
  "all_literals = deposit_literals @ transfer_literals @ div_literals"

definition deposits :: "double list" where
  "deposits = map round_double deposit_literals"

definition transfers :: "double list" where
  "transfers = map round_double transfer_literals"

definition divs :: "double list" where
  "divs = map round_double div_literals"

definition all_vals :: "double list" where
  "all_vals = deposits @ transfers @ divs"

definition target :: double where
  "target = round_double (1680966 / 100)"

definition tolerance :: double where
  "tolerance = round_double (5 / 100)"

text \<open>
  \<^verbatim>\<open>itertools.combinations(pool, r)\<close>: the \<open>r\<close>-element subsequences of the pool, those that
  keep the first element before those that drop it. A negative \<open>r\<close> raises \<open>ValueError\<close>
  when the iterator is created; an \<open>r\<close> above the pool's length gives no combination.
\<close>

fun combinations :: "'a list \<Rightarrow> nat \<Rightarrow> 'a list list" where
  "combinations xs 0 = [[]]"
| "combinations [] (Suc r) = []"
| "combinations (x # xs) (Suc r) = map ((#) x) (combinations xs r) @ combinations xs (Suc r)"

definition itertools_combinations :: "'a list \<Rightarrow> int \<Rightarrow> py_error + 'a list list" where
  "itertools_combinations pool r =
     (if r < 0 then Inl ValueError else Inr (combinations pool (nat r)))"

text \<open>\<^verbatim>\<open>sum(c)\<close> adds from the left, starting at 0.\<close>

definition py_sum :: "'a::{zero,plus} list \<Rightarrow> 'a" where
  "py_sum c = foldl (+) 0 c"

text \<open>\<^verbatim>\<open>range(a, b)\<close> over Python's integers.\<close>

definition py_range :: "int \<Rightarrow> int \<Rightarrow> int list" where
  "py_range a b = [a..b - 1]"

text \<open>
  What a run leaves behind: the lines printed, the exception that ended it (if any), and, as
  a ghost field that the script does not have, the combinations for which the loop body ran.
\<close>

datatype 'a out_line = Match 'a "'a list" | Search_done

record 'a search_run =
  printed :: "'a out_line list"
  examined :: "'a list list"
  raised :: "py_error option"

text \<open>The test of line 21, \<open>tol\<close> standing for the literal \<open>0.05\<close>.\<close>

definition is_match :: "'a::{zero,plus,minus,abs,ord} \<Rightarrow> 'a \<Rightarrow> 'a list \<Rightarrow> bool" where
  "is_match tol tgt c = (\<bar>py_sum c - tgt\<bar> < tol)"

text \<open>The inner loop, lines 20 to 22: one combination after the other.\<close>

fun scan_combinations ::
  "'a::{zero,plus,minus,abs,ord} \<Rightarrow> 'a \<Rightarrow> 'a list list \<Rightarrow> 'a search_run \<Rightarrow> 'a search_run"
where
  "scan_combinations tol tgt [] s = s"
| "scan_combinations tol tgt (c # cs) s =
     scan_combinations tol tgt cs
       (s\<lparr>printed :=
            (if is_match tol tgt c then printed s @ [Match (py_sum c) c] else printed s),
          examined := examined s @ [c]\<rparr>)"

text \<open>The outer loop, line 19: one size after the other; an exception ends the run.\<close>

fun scan_sizes ::
  "'a::{zero,plus,minus,abs,ord} \<Rightarrow> 'a list \<Rightarrow> 'a \<Rightarrow> int list \<Rightarrow> 'a search_run
     \<Rightarrow> 'a search_run"
where
  "scan_sizes tol pool tgt [] s = s"
| "scan_sizes tol pool tgt (r # rs) s =
     (case itertools_combinations pool r of
        Inl e \<Rightarrow> s\<lparr>raised := Some e\<rparr>
      | Inr cs \<Rightarrow> scan_sizes tol pool tgt rs (scan_combinations tol tgt cs s))"

definition find_sum ::
  "'a::{zero,plus,minus,abs,ord} \<Rightarrow> 'a list \<Rightarrow> 'a \<Rightarrow> 'a search_run"
where
  "find_sum tol pool tgt =
     (let n = int (length pool);
          s = scan_sizes tol pool tgt (py_range (n - 2) (n + 1))
                \<lparr>printed = [], examined = [], raised = None\<rparr>
      in if raised s = None then s\<lparr>printed := printed s @ [Search_done]\<rparr> else s)"

text \<open>
  The enumeration as the specification words it: all index tuples of length \<open>r\<close> over
  \<open>0, \<dots>, n - 1\<close> that increase strictly, in lexicographic order, each read off the pool.
\<close>

definition lex_index_tuples :: "nat \<Rightarrow> nat \<Rightarrow> nat list list" where
  "lex_index_tuples n r = sort (filter (sorted_wrt (<)) (List.n_lists r [0..<n]))"

definition lex_combinations :: "'a list \<Rightarrow> nat \<Rightarrow> 'a list list" where
  "lex_combinations pool r = map (map ((!) pool)) (lex_index_tuples (length pool) r)"

text \<open>
  The combinations of the three sizes below the pool's length, in the order in which the
  two loops reach them; used to state what a run does in closed form.
\<close>

definition near_full_combinations :: "'a list \<Rightarrow> 'a list list" where
  "near_full_combinations pool =
     combinations pool (length pool - 2) @ combinations pool (length pool - 1)
       @ combinations pool (length pool)"

section \<open>Text as Python sees it\<close>

text \<open>
  A Python \<^verbatim>\<open>str\<close> is a sequence of Unicode code points; \<open>ustr\<close> turns an ASCII literal
  into one. \<open>py_isspace\<close> lists the code points that \<^verbatim>\<open>str.strip()\<close> removes.
\<close>

type_synonym ustr = "nat list"

definition ustr :: "string \<Rightarrow> ustr" where
  "ustr s = map of_char s"

definition py_isspace :: "nat \<Rightarrow> bool" where
  "py_isspace c =
     (9 \<le> c \<and> c \<le> 13 \<or> 28 \<le> c \<and> c \<le> 32 \<or> c = 133 \<or> c = 160 \<or> c = 5760 \<or>
      8192 \<le> c \<and> c \<le> 8202 \<or> c = 8232 \<or> c = 8233 \<or> c = 8239 \<or> c = 8287 \<or> c = 12288)"

definition strip :: "ustr \<Rightarrow> ustr" where
  "strip s = rev (dropWhile py_isspace (rev (dropWhile py_isspace s)))"

text \<open>\<^verbatim>\<open>sub in s\<close> on strings: \<open>sub\<close> occurs in \<open>s\<close> as a contiguous piece.\<close>

fun occurs_in :: "'a list \<Rightarrow> 'a list \<Rightarrow> bool" where
  "occurs_in sub [] = (sub = [])"
| "occurs_in sub (c # s) = (prefix sub (c # s) \<or> occurs_in sub s)"

text \<open>\<^verbatim>\<open>s.split(sep)\<close> with a separator of one character: never an empty list.\<close>

fun split :: "'a \<Rightarrow> 'a list \<Rightarrow> 'a list list" where
  "split sep [] = [[]]"
| "split sep (c # s) =
     (if c = sep then [] # split sep s
      else (case split sep s of [] \<Rightarrow> [[c]] | w # ws \<Rightarrow> (c # w) # ws))"

section \<open>The statement as a parsed tree\<close>

text \<open>
  What the scripts see of a BeautifulSoup tree: a tag with its name and children, a text
  string, or a string of another kind (a comment, a declaration, the content of a
  \<^verbatim>\<open>script\<close>), which \<^verbatim>\<open>get_text\<close> leaves out. Attributes play no part in the scripts.
\<close>

datatype node = Tag ustr "node list" | Text ustr | Comment ustr

text \<open>The descendants of a tag in document order, as \<^verbatim>\<open>find_all\<close> and \<^verbatim>\<open>get_text\<close> walk them.\<close>

fun descendants :: "node \<Rightarrow> node list" where
  "descendants (Tag name children) = concat (map (\<lambda>c. c # descendants c) children)"
| "descendants (Text s) = []"
| "descendants (Comment s) = []"

fun named :: "ustr list \<Rightarrow> node \<Rightarrow> bool" where
  "named names (Tag name children) = (name \<in> set names)"
| "named names (Text s) = False"
| "named names (Comment s) = False"

definition find_all :: "ustr list \<Rightarrow> node \<Rightarrow> node list" where
  "find_all names t = filter (named names) (descendants t)"

fun strings_of :: "node list \<Rightarrow> ustr list" where
  "strings_of [] = []"
| "strings_of (Text s # ds) = s # strings_of ds"
| "strings_of (d # ds) = strings_of ds"

text \<open>\<^verbatim>\<open>t.get_text()\<close> and \<^verbatim>\<open>t.get_text(strip=True)\<close>, both with the empty separator.\<close>

definition get_text :: "node \<Rightarrow> ustr" where
  "get_text t = concat (strings_of (descendants t))"

definition get_text_strip :: "node \<Rightarrow> ustr" where
  "get_text_strip t = concat (filter (\<lambda>s. s \<noteq> []) (map strip (strings_of (descendants t))))"

section \<open>Statement table locator: \<^verbatim>\<open>parse_cash.py\<close> and \<^verbatim>\<open>parse_ibkr.py\<close>\<close>

text \<open>The keywords of the two scripts.\<close>

definition kw_transfert :: ustr where
  "kw_transfert = ustr ''Transfert '' @ [233] @ ustr ''lectronique''"

definition kw_deboursement :: ustr where
  "kw_deboursement = ustr ''D'' @ [233] @ ustr ''boursement''"

definition kw_depots :: ustr where
  "kw_depots = ustr ''D'' @ [233] @ ustr ''p'' @ [244] @ ustr ''ts''"

definition kw_date :: ustr where "kw_date = ustr ''Date''"
definition kw_description :: ustr where "kw_description = ustr ''Description''"
definition kw_montant :: ustr where "kw_montant = ustr ''Montant''"
definition kw_symbole :: ustr where "kw_symbole = ustr ''Symbole''"
definition kw_achat :: ustr where "kw_achat = ustr ''Achat''"
definition kw_vente :: ustr where "kw_vente = ustr ''Vente''"

text \<open>
  The lines the scripts print, as values; the last one is the \<^verbatim>\<open>print(e)\<close> of the handler
  in \<^verbatim>\<open>parse_ibkr.py\<close>.
\<close>

datatype line =
  Candidate_cash_table | Table_headers "ustr list" | Cells "ustr list" | Printed_exception py_error

text \<open>\<^verbatim>\<open>rows[0]\<close>: raises \<open>IndexError\<close> on an empty list.\<close>

definition py_first :: "'a list \<Rightarrow> py_error + 'a" where
  "py_first xs = (case xs of [] \<Rightarrow> Inl IndexError | x # _ \<Rightarrow> Inr x)"

text \<open>
  The two list comprehensions over a row: the texts of its \<^verbatim>\<open>th\<close> and \<^verbatim>\<open>td\<close> cells (used
  for row 0), and the texts of its \<^verbatim>\<open>td\<close> cells (used for the rows after it).
\<close>

definition header_cells :: "node \<Rightarrow> ustr list" where
  "header_cells r = map get_text_strip (find_all [ustr ''th'', ustr ''td''] r)"

definition data_cells :: "node \<Rightarrow> ustr list" where
  "data_cells r = map get_text_strip (find_all [ustr ''td''] r)"

text \<open>
  The body of the loop of \<^verbatim>\<open>parse_cash.py\<close>, lines 11 to 20, for one table: the lines it
  prints, or the exception it raises.
\<close>

definition cash_table :: "node \<Rightarrow> py_error + line list" where
  "cash_table t =
     (let text = get_text t in
      if occurs_in kw_transfert text \<or> occurs_in kw_deboursement text then
        (let rows = find_all [ustr ''tr''] t in
         if rows = [] then Inr []
         else
           (case py_first rows of
              Inl e \<Rightarrow> Inl e
            | Inr row0 \<Rightarrow>
                (let headers = header_cells row0 in
                 if kw_date \<in> set headers \<and> kw_description \<in> set headers \<and>
                    kw_montant \<in> set headers
                 then Inr (Candidate_cash_table # map (\<lambda>r. Cells (data_cells r)) (drop 1 rows))
                 else Inr [])))
      else Inr [])"

text \<open>The loop over the tables: the lines printed, and the exception that ended it, if any.\<close>

fun cash_tables :: "node list \<Rightarrow> line list \<times> py_error option" where
  "cash_tables [] = ([], None)"
| "cash_tables (t # ts) =
     (case cash_table t of
        Inl e \<Rightarrow> ([], Some e)
      | Inr out \<Rightarrow> (let (more, err) = cash_tables ts in (out @ more, err)))"

definition parse_cash :: "node \<Rightarrow> line list \<times> py_error option" where
  "parse_cash soup = cash_tables (find_all [ustr ''table''] soup)"

text \<open>
  The lines one table contributes to the output of \<^verbatim>\<open>parse_cash.py\<close>.
\<close>

definition cash_lines :: "node \<Rightarrow> line list" where
  "cash_lines t = (case cash_table t of Inl e \<Rightarrow> [] | Inr out \<Rightarrow> out)"

subsection \<open>The script as a process over a shared tree\<close>

text \<open>
  In the script the values of \<^verbatim>\<open>tables\<close>, \<^verbatim>\<open>t\<close>, \<^verbatim>\<open>rows\<close> and \<^verbatim>\<open>r\<close> are not copies of
  parts of the tree but references to elements of the one tree held in \<^verbatim>\<open>soup\<close>. A
  reference is modelled as the path from the root to the element: the indices of the
  children to descend into. \<open>positions\<close> lists the paths of the descendants of an element
  in document order, as \<open>descendants\<close> lists the descendants themselves.
\<close>

type_synonym elem = "nat list"

fun element_at :: "node \<Rightarrow> elem \<Rightarrow> node option" where
  "element_at n [] = Some n"
| "element_at (Tag name children) (i # p) =
     (if i < length children then element_at (children ! i) p else None)"
| "element_at (Text s) (i # p) = None"
| "element_at (Comment s) (i # p) = None"

fun positions :: "node \<Rightarrow> elem list"
  and positions_from :: "nat \<Rightarrow> node list \<Rightarrow> elem list" where
  "positions (Tag name children) = positions_from 0 children"
| "positions (Text s) = []"
| "positions (Comment s) = []"
| "positions_from i [] = []"
| "positions_from i (c # cs) = [i] # map ((#) i) (positions c) @ positions_from (Suc i) cs"

definition named_at :: "ustr list \<Rightarrow> node \<Rightarrow> elem \<Rightarrow> bool" where
  "named_at names n p = (case element_at n p of None \<Rightarrow> False | Some d \<Rightarrow> named names d)"

text \<open>
  The three library calls of the script, as operations on the tree: each takes the element
  it is called on and the tree, and returns its result together with the tree it leaves.
  \<^verbatim>\<open>find_all\<close> returns references to the matching descendants; \<^verbatim>\<open>get_text()\<close> and
  \<^verbatim>\<open>get_text(strip=True)\<close> return a string. All three are read operations of the library.
\<close>

definition bs_find_all :: "ustr list \<Rightarrow> elem \<Rightarrow> node \<Rightarrow> elem list \<times> node" where
  "bs_find_all names e doc =
     (case element_at doc e of
        None \<Rightarrow> ([], doc)
      | Some n \<Rightarrow> (map ((@) e) (filter (named_at names n) (positions n)), doc))"

definition bs_get_text :: "elem \<Rightarrow> node \<Rightarrow> ustr \<times> node" where
  "bs_get_text e doc =
     (case element_at doc e of None \<Rightarrow> ([], doc) | Some n \<Rightarrow> (get_text n, doc))"

definition bs_get_text_strip :: "elem \<Rightarrow> node \<Rightarrow> ustr \<times> node" where
  "bs_get_text_strip e doc =
     (case element_at doc e of None \<Rightarrow> ([], doc) | Some n \<Rightarrow> (get_text_strip n, doc))"

text \<open>
  The state of the interpreter while \<^verbatim>\<open>parse_cash.py\<close> runs: the tree bound to \<^verbatim>\<open>soup\<close>,
  the lines written to standard output so far, and the module-level variables the script
  assigns. The variables of the two list comprehensions are local to them.
\<close>

record process =
  document :: node
  stdout :: "line list"
  var_tables :: "elem list"
  var_t :: elem
  var_text :: ustr
  var_rows :: "elem list"
  var_headers :: "ustr list"
  var_r :: elem
  var_cells :: "ustr list"

text \<open>A list comprehension \<^verbatim>\<open>[c.get_text(strip=True) for c in cs]\<close>.\<close>

fun texts_of :: "elem list \<Rightarrow> node \<Rightarrow> ustr list \<times> node" where
  "texts_of [] doc = ([], doc)"
| "texts_of (c # cs) doc =
     (let (s, doc1) = bs_get_text_strip c doc;
          (ss, doc2) = texts_of cs doc1
      in (s # ss, doc2))"

text \<open>The inner loop, lines 18 to 20.\<close>

fun print_rows :: "elem list \<Rightarrow> process \<Rightarrow> process" where
  "print_rows [] st = st"
| "print_rows (r # rs) st =
     (let (tds, d1) = bs_find_all [ustr ''td''] r (document st);
          (cells, d2) = texts_of tds d1;
          st1 = st\<lparr>document := d2, var_r := r, var_cells := cells\<rparr>
      in print_rows rs (st1\<lparr>stdout := stdout st1 @ [Cells (var_cells st1)]\<rparr>))"

text \<open>
  The body of the outer loop, lines 11 to 20, for the table \<open>t\<close>: the state it leaves, and
  the exception it raises, if any.
\<close>

definition cash_body :: "elem \<Rightarrow> process \<Rightarrow> process \<times> py_error option" where
  "cash_body t st0 =
     (let (text, d1) = bs_get_text t (document st0);
          st1 = st0\<lparr>document := d1, var_t := t, var_text := text\<rparr>
      in if occurs_in kw_transfert (var_text st1) \<or> occurs_in kw_deboursement (var_text st1) then
           (let (rows, d2) = bs_find_all [ustr ''tr''] (var_t st1) (document st1);
                st2 = st1\<lparr>document := d2, var_rows := rows\<rparr>
            in if var_rows st2 = [] then (st2, None)
               else
                 (case py_first (var_rows st2) of
                    Inl e \<Rightarrow> (st2, Some e)
                  | Inr row0 \<Rightarrow>
                      (let (ths, d3) = bs_find_all [ustr ''th'', ustr ''td''] row0 (document st2);
                           (headers, d4) = texts_of ths d3;
                           st3 = st2\<lparr>document := d4, var_headers := headers\<rparr>
                       in if kw_date \<in> set (var_headers st3) \<and>
                             kw_description \<in> set (var_headers st3) \<and>
                             kw_montant \<in> set (var_headers st3)
                          then
                            (print_rows (drop 1 (var_rows st3))
                               (st3\<lparr>stdout := stdout st3 @ [Candidate_cash_table]\<rparr>), None)
                          else (st3, None))))
         else (st1, None))"

fun cash_loop :: "elem list \<Rightarrow> process \<Rightarrow> process \<times> py_error option" where
  "cash_loop [] st = (st, None)"
| "cash_loop (t # ts) st =
     (case cash_body t st of
        (st1, Some e) \<Rightarrow> (st1, Some e)
      | (st1, None) \<Rightarrow> cash_loop ts st1)"

text \<open>
  Lines 7 to 20 of \<^verbatim>\<open>parse_cash.py\<close>, run in a process whose \<^verbatim>\<open>soup\<close> holds a parsed
  document.
\<close>

definition parse_cash_script :: "process \<Rightarrow> process \<times> py_error option" where
  "parse_cash_script st =
     (let (tables, d) = bs_find_all [ustr ''table''] [] (document st);
          st1 = st\<lparr>document := d, var_tables := tables\<rparr>
      in cash_loop (var_tables st1) st1)"

subsection \<open>\<^verbatim>\<open>parse_ibkr.py\<close>\<close>

text \<open>
  \<^verbatim>\<open>summarize_table\<close> of \<^verbatim>\<open>parse_ibkr.py\<close>: the headers, then the non-empty ones of rows 1
  to 3.
\<close>

definition summarize_table :: "node \<Rightarrow> py_error + line list" where
  "summarize_table t =
     (let rows = find_all [ustr ''tr''] t in
      if rows = [] then Inr []
      else
        (case py_first rows of
           Inl e \<Rightarrow> Inl e
         | Inr row0 \<Rightarrow>
             Inr (Table_headers (header_cells row0)
                    # map Cells (filter (\<lambda>cells. cells \<noteq> [])
                                   (map data_cells (take 3 (drop 1 rows)))))))"

text \<open>
  The body of the loop of \<^verbatim>\<open>parse_ibkr.py\<close>, lines 17 to 21, for one table: \<open>None\<close> when
  neither branch is taken, otherwise the outcome of the call of \<^verbatim>\<open>summarize_table\<close>.
\<close>

definition ibkr_table :: "node \<Rightarrow> (py_error + line list) option" where
  "ibkr_table t =
     (let text = get_text t in
      if occurs_in kw_symbole text \<and>
         (occurs_in kw_achat text \<or> occurs_in kw_vente text \<or> occurs_in kw_depots text \<or>
          occurs_in kw_date text)
      then Some (summarize_table t)
      else if occurs_in kw_date text \<and> occurs_in kw_montant text
      then Some (summarize_table t)
      else None)"

text \<open>The lines one table contributes to the output of \<^verbatim>\<open>parse_ibkr.py\<close>.\<close>

definition ibkr_lines :: "node \<Rightarrow> line list" where
  "ibkr_lines t = (case ibkr_table t of Some (Inr out) \<Rightarrow> out | _ \<Rightarrow> [])"

fun ibkr_tables :: "node list \<Rightarrow> line list \<times> py_error option" where
  "ibkr_tables [] = ([], None)"
| "ibkr_tables (t # ts) =
     (case ibkr_table t of
        None \<Rightarrow> ibkr_tables ts
      | Some (Inl e) \<Rightarrow> ([], Some e)
      | Some (Inr out) \<Rightarrow> (let (more, err) = ibkr_tables ts in (out @ more, err)))"

text \<open>The \<^verbatim>\<open>try\<close> block of \<^verbatim>\<open>parse_ibkr.py\<close> from line 15 on, with its handler.\<close>

definition parse_ibkr :: "node \<Rightarrow> line list" where
  "parse_ibkr soup =
     (let (out, err) = ibkr_tables (find_all [ustr ''table''] soup)
      in case err of None \<Rightarrow> out | Some e \<Rightarrow> out @ [Printed_exception e])"

text \<open>
  The transaction rule as the specification words it: the symbol keyword with one of the
  four others in the full text, or the date and the amount keyword among the cells of the
  header row.
\<close>

definition header_row :: "node \<Rightarrow> ustr list" where
  "header_row t = (case find_all [ustr ''tr''] t of [] \<Rightarrow> [] | row0 # rest \<Rightarrow> header_cells row0)"

definition transaction_rule_as_specified :: "node \<Rightarrow> bool" where
  "transaction_rule_as_specified t =
     (occurs_in kw_symbole (get_text t) \<and>
        (occurs_in kw_achat (get_text t) \<or> occurs_in kw_vente (get_text t) \<or>
         occurs_in kw_depots (get_text t) \<or> occurs_in kw_date (get_text t))
      \<or> kw_date \<in> set (header_row t) \<and> kw_montant \<in> set (header_row t))"

text \<open>Small tables used as concrete inputs below.\<close>

definition late_keywords_table :: node where
  "late_keywords_table =
     Tag (ustr ''table'')
       [Tag (ustr ''tr'') [Tag (ustr ''td'') [Text (ustr ''x'')]],
        Tag (ustr ''tr'')
          [Tag (ustr ''td'') [Text (ustr ''Date'')], Tag (ustr ''td'') [Text (ustr ''Montant'')]]]"

definition withdrawal_table :: node where
  "withdrawal_table =
     Tag (ustr ''table'')
       [Tag (ustr ''tr'')
          [Tag (ustr ''th'') [Text (ustr ''Date'')], Tag (ustr ''th'') [Text (ustr ''Description'')],
           Tag (ustr ''th'') [Text (ustr ''Montant'')]],
        Tag (ustr ''tr'')
          [Tag (ustr ''td'') [Text (ustr ''2025-03-01'')], Tag (ustr ''td'') [Text kw_deboursement],
           Tag (ustr ''td'') [Text (ustr '' -100.00 '')]]]"

definition empty_table :: node where
  "empty_table = Tag (ustr ''table'') [Text kw_deboursement]"

text \<open>
  A table without rows whose text holds a cash-movement keyword and the date and amount
  keywords, so that both scripts take it up.
\<close>

definition rowless_table :: node where
  "rowless_table = Tag (ustr ''table'') [Text (ustr ''Date Montant '' @ kw_deboursement)]"

text \<open>
  A process whose variables hold values left over from earlier work, none of them those
  the script would compute for its document.
\<close>

definition stale_process :: process where
  "stale_process =
     \<lparr>document = Tag [] [empty_table, withdrawal_table],
      stdout = [],
      var_tables = [[1], [5]],
      var_t = [1],
      var_text = kw_transfert,
      var_rows = [[1, 0]],
      var_headers = [kw_date, kw_description, kw_montant],
      var_r = [1, 1],
      var_cells = [ustr ''stale'']\<rparr>"

section \<open>Valuation proxy: \<^verbatim>\<open>scripts/yfinance_server.py\<close>\<close>

text \<open>
  The values that pass through the handlers are those of decoded JSON. \<open>is_number\<close> is
  \<^verbatim>\<open>isinstance(v, (int, float))\<close>, which holds of a \<^verbatim>\<open>bool\<close> too; \<open>truthy\<close> is the test
  that \<^verbatim>\<open>or\<close> applies to its left operand. Numbers are passed on and never computed with.
\<close>

datatype pyval =
  PNone | PBool bool | PInt int | PFloat rat | PStr ustr | PList "pyval list"
  | PDict "(ustr \<times> pyval) list"

fun is_number :: "pyval \<Rightarrow> bool" where
  "is_number (PBool b) = True"
| "is_number (PInt i) = True"
| "is_number (PFloat x) = True"
| "is_number v = False"

fun truthy :: "pyval \<Rightarrow> bool" where
  "truthy PNone = False"
| "truthy (PBool b) = b"
| "truthy (PInt i) = (i \<noteq> 0)"
| "truthy (PFloat x) = (x \<noteq> 0)"
| "truthy (PStr s) = (s \<noteq> [])"
| "truthy (PList vs) = (vs \<noteq> [])"
| "truthy (PDict kvs) = (kvs \<noteq> [])"

type_synonym pydict = "ustr \<rightharpoonup> pyval"

text \<open>\<^verbatim>\<open>d.get(k)\<close> and \<^verbatim>\<open>d.get(k, default)\<close>.\<close>

definition dict_get :: "pydict \<Rightarrow> ustr \<Rightarrow> pyval \<Rightarrow> pyval" where
  "dict_get d k dflt = (case d k of None \<Rightarrow> dflt | Some v \<Rightarrow> v)"

text \<open>
  The outside world. An upstream call takes the state of the world and returns, with the
  next state, either the exception raised inside the handler's \<^verbatim>\<open>try\<close> block or the data
  the block goes on with: for \<^verbatim>\<open>yf.Ticker(t).info\<close> the dictionary \<open>info\<close>, for the search
  request the decoded list \<^verbatim>\<open>data.get("quotes", [])\<close> of quote dictionaries. Two calls with
  the same argument may answer differently.
\<close>

datatype upstream_error = Upstream_error ustr

record 'w upstream =
  ticker_info :: "'w \<Rightarrow> ustr \<Rightarrow> (upstream_error + pydict) \<times> 'w"
  url_open :: "'w \<Rightarrow> ustr \<Rightarrow> (upstream_error + pydict list) \<times> 'w"

datatype call = Ticker_info ustr | Url_open ustr

datatype log_line = Fetch_error ustr upstream_error | Search_error upstream_error

text \<open>
  What a handler works on besides the request: the world, the upstream calls made so far
  (a ghost field), and the lines written to \<^verbatim>\<open>sys.stderr\<close>.
\<close>

record 'w session =
  world :: 'w
  calls :: "call list"
  stderr :: "log_line list"

record pe_entry =
  trailingPE :: pyval
  forwardPE :: pyval
  trailingEps :: pyval
  forwardEps :: pyval

record search_hit =
  hit_symbol :: pyval
  hit_name :: pyval
  hit_exchange :: pyval
  hit_type :: pyval

text \<open>
  The JSON bodies the handlers write. The result of \<^verbatim>\<open>/pe\<close> is a \<^verbatim>\<open>dict\<close>: an association
  list in insertion order, in which a key assigned again keeps its place.
\<close>

datatype body =
  Error_body ustr | Health_body | Pe_body "(ustr \<times> pe_entry) list" | Search_body "search_hit list"

record response =
  status :: nat
  body :: body

text \<open>
  A request as \<^verbatim>\<open>do_GET\<close> sees it: the path, and the query string as \<^verbatim>\<open>parse_qs\<close> returns
  it, a dictionary from parameter names to lists of values. \<^verbatim>\<open>parse_qs\<close> leaves out a
  parameter whose value is blank and gives every parameter it keeps at least one value;
  on an empty list of values \<^verbatim>\<open>[0]\<close> would raise, before any response is written.
\<close>

record request =
  req_path :: ustr
  req_query :: "ustr \<rightharpoonup> ustr list"

text \<open>\<^verbatim>\<open>qs.get(k, [""])[0]\<close>.\<close>

definition qs_first :: "(ustr \<rightharpoonup> ustr list) \<Rightarrow> ustr \<Rightarrow> py_error + ustr" where
  "qs_first qs k = py_first (case qs k of None \<Rightarrow> [[]] | Some vs \<Rightarrow> vs)"

definition respond :: "nat \<Rightarrow> body \<Rightarrow> 'w session \<Rightarrow> (py_error + response) \<times> 'w session" where
  "respond code b s = (Inr \<lparr>status = code, body = b\<rparr>, s)"

subsection \<open>\<^verbatim>\<open>_handle_search\<close>\<close>

definition search_url :: "ustr \<Rightarrow> ustr" where
  "search_url query =
     ustr ''https://query2.finance.yahoo.com/v1/finance/search?q='' @ query @
     ustr ''&quotesCount=8&newsCount=0&listsCount=0&enableFuzzyQuery=false&quotesQueryId=tss_match_phrase_query''"

definition hit_of_quote :: "pydict \<Rightarrow> search_hit" where
  "hit_of_quote quote =
     \<lparr>hit_symbol = dict_get quote (ustr ''symbol'') (PStr []),
      hit_name =
        (let longname = dict_get quote (ustr ''longname'') PNone
         in if truthy longname then longname else dict_get quote (ustr ''shortname'') (PStr [])),
      hit_exchange = dict_get quote (ustr ''exchDisp'') (PStr []),
      hit_type = dict_get quote (ustr ''quoteType'') (PStr [])\<rparr>"

definition handle_search ::
  "'w upstream \<Rightarrow> (ustr \<rightharpoonup> ustr list) \<Rightarrow> 'w session \<Rightarrow> (py_error + response) \<times> 'w session"
where
  "handle_search up qs s =
     (case qs_first qs (ustr ''q'') of
        Inl e \<Rightarrow> (Inl e, s)
      | Inr v \<Rightarrow>
          (let query = strip v in
           if query = [] then respond 400 (Error_body (ustr ''missing q param'')) s
           else
             (let (r, w) = url_open up (world s) (search_url query);
                  s1 = s\<lparr>world := w, calls := calls s @ [Url_open (search_url query)]\<rparr>
              in case r of
                   Inr quotes \<Rightarrow> respond 200 (Search_body (map hit_of_quote quotes)) s1
                 | Inl (Upstream_error msg) \<Rightarrow>
                     respond 500 (Error_body msg)
                       (s1\<lparr>stderr := stderr s1 @ [Search_error (Upstream_error msg)]\<rparr>))))"

subsection \<open>\<^verbatim>\<open>_handle_pe\<close>\<close>

definition comma :: nat where
  "comma = 44"

text \<open>Line 85: \<^verbatim>\<open>[t.strip() for t in raw.split(",") if t.strip()]\<close>.\<close>

definition pe_tickers :: "ustr \<Rightarrow> ustr list" where
  "pe_tickers raw = map strip (filter (\<lambda>t. strip t \<noteq> []) (split comma raw))"

text \<open>
  The ticker list as the claim words it: split on commas, trim every segment, drop the
  segments that are empty after trimming.
\<close>

definition tickers_as_specified :: "ustr \<Rightarrow> ustr list" where
  "tickers_as_specified raw = filter (\<lambda>t. t \<noteq> []) (map strip (split comma raw))"

definition number_or_none :: "pyval \<Rightarrow> pyval" where
  "number_or_none v = (if is_number v then v else PNone)"

definition entry_of_info :: "pydict \<Rightarrow> pe_entry" where
  "entry_of_info info =
     \<lparr>trailingPE = number_or_none (dict_get info (ustr ''trailingPE'') PNone),
      forwardPE = number_or_none (dict_get info (ustr ''forwardPE'') PNone),
      trailingEps = number_or_none (dict_get info (ustr ''trailingEps'') PNone),
      forwardEps = number_or_none (dict_get info (ustr ''forwardEps'') PNone)\<rparr>"

definition null_entry :: pe_entry where
  "null_entry = \<lparr>trailingPE = PNone, forwardPE = PNone, trailingEps = PNone, forwardEps = PNone\<rparr>"

text \<open>The loop of lines 93 to 108: one fetch per ticker of the list, in order.\<close>

fun pe_loop ::
  "'w upstream \<Rightarrow> ustr list \<Rightarrow> (ustr \<times> pe_entry) list \<Rightarrow> 'w session
     \<Rightarrow> (ustr \<times> pe_entry) list \<times> 'w session"
where
  "pe_loop up [] result s = (result, s)"
| "pe_loop up (t # ts) result s =
     (let (r, w) = ticker_info up (world s) t;
          s1 = s\<lparr>world := w, calls := calls s @ [Ticker_info t]\<rparr>
      in case r of
           Inr info \<Rightarrow> pe_loop up ts (AList.update t (entry_of_info info) result) s1
         | Inl e \<Rightarrow>
             pe_loop up ts (AList.update t null_entry result)
               (s1\<lparr>stderr := stderr s1 @ [Fetch_error t e]\<rparr>))"

definition handle_pe ::
  "'w upstream \<Rightarrow> (ustr \<rightharpoonup> ustr list) \<Rightarrow> 'w session \<Rightarrow> (py_error + response) \<times> 'w session"
where
  "handle_pe up qs s =
     (case qs_first qs (ustr ''tickers'') of
        Inl e \<Rightarrow> (Inl e, s)
      | Inr raw \<Rightarrow>
          (let tickers = pe_tickers raw in
           if tickers = [] then respond 400 (Error_body (ustr ''missing tickers param'')) s
           else
             (let (result, s1) = pe_loop up tickers [] s
              in respond 200 (Pe_body result) s1)))"

subsection \<open>\<^verbatim>\<open>do_GET\<close>\<close>

definition do_GET ::
  "'w upstream \<Rightarrow> request \<Rightarrow> 'w session \<Rightarrow> (py_error + response) \<times> 'w session"
where
  "do_GET up req s =
     (if req_path req = ustr ''/pe'' then handle_pe up (req_query req) s
      else if req_path req = ustr ''/search'' then handle_search up (req_query req) s
      else if req_path req = ustr ''/health'' then respond 200 Health_body s
      else respond 404 (Error_body (ustr ''not found'')) s)"

text \<open>
  An upstream for concrete runs: the world counts the calls; the first call of each kind
  raises a timeout, every later one answers.
\<close>

definition flaky_upstream :: "nat upstream" where
  "flaky_upstream =
     \<lparr>ticker_info = (\<lambda>w t.
        (if w = 0 then Inl (Upstream_error (ustr ''timed out''))
         else Inr [ustr ''trailingPE'' \<mapsto> PInt 10, ustr ''forwardPE'' \<mapsto> PStr (ustr ''n/a'')],
         Suc w)),
      url_open = (\<lambda>w u.
        (if w = 0 then Inl (Upstream_error (ustr ''timed out'')) else Inr [], Suc w))\<rparr>"

definition fresh_session :: "nat session" where
  "fresh_session = \<lparr>world = 0, calls = [], stderr = []\<rparr>"

definition warm_session :: "nat session" where
  "warm_session = \<lparr>world = 1, calls = [], stderr = []\<rparr>"

definition pe_request :: "ustr \<Rightarrow> request" where
  "pe_request raw = \<lparr>req_path = ustr ''/pe'', req_query = [ustr ''tickers'' \<mapsto> [raw]]\<rparr>"

definition search_request :: "ustr \<Rightarrow> request" where
  "search_request q = \<lparr>req_path = ustr ''/search'', req_query = [ustr ''q'' \<mapsto> [q]]\<rparr>"

section \<open>Properties of floating-point rounding\<close>

text \<open>
  \<open>expo\<close> is the binary exponent; rounding a number below \<open>2 ^ 15\<close> in size gives a finite
  double within \<open>2 powi (- 39)\<close> of it, of the same sign; so a sum of non-negative doubles
  taken from the left exceeds the exact sum of the numbers they were rounded from by at
  most \<open>2 powi (- 38)\<close> for each of them.
\<close>

lemma round_even_error: "\<bar>of_int (round_even q) - q\<bar> \<le> 1 / 2"
proof -
  have "of_int \<lfloor>q\<rfloor> \<le> q" "q < of_int \<lfloor>q\<rfloor> + 1"
    by linarith+
  then show ?thesis
    by (auto simp: round_even_def Let_def)
qed

lemma round_even_nonneg: "0 \<le> q \<Longrightarrow> 0 \<le> round_even q"
  by (auto simp: round_even_def Let_def)

lemma expo_less:
  assumes "\<bar>x\<bar> < 2 ^ k" and "0 < k"
  shows "expo x < int k"
proof (cases "1 \<le> \<bar>x\<bar>")
  case True
  have "\<lfloor>\<bar>x\<bar>\<rfloor> < 2 ^ k"
    using assms(1) by (simp add: floor_less_iff)
  then have "bitlen \<lfloor>\<bar>x\<bar>\<rfloor> \<le> int k"
    by (simp add: bitlen_le_iff_power)
  with True show ?thesis
    by (simp add: expo_def)
next
  case False
  then have "expo x \<le> 0"
    by (simp add: expo_def bitlen_nonneg)
  with assms(2) show ?thesis by simp
qed

lemma round_double_near:
  assumes "\<bar>z\<bar> < 2 ^ 15"
  shows "\<exists>y. round_double z = Finite y \<and> \<bar>y - z\<bar> \<le> 1 / 2 ^ 39 \<and> (0 \<le> z \<longrightarrow> 0 \<le> y)"
proof (cases "z = 0")
  case True
  then show ?thesis by (simp add: round_double_def)
next
  case False
  define e where "e = max (expo z - 52) (- 1074)"
  define m where "m = round_even (z / 2 powi e)"
  define y :: rat where "y = of_int m * 2 powi e"
  have pos: "(0::rat) < 2 powi e" by simp
  have "expo z < 15"
    using expo_less [OF assms] by simp
  then have "e \<le> - 38"
    by (simp add: e_def)
  then have "(2::rat) powi e \<le> 2 powi (- 38)"
    by (intro power_int_increasing) simp_all
  then have small: "(2::rat) powi e \<le> 1 / 2 ^ 38"
    by (simp add: power_int_minus field_simps)
  have "y - z = (of_int m - z / 2 powi e) * 2 powi e"
    using pos by (simp add: y_def field_simps)
  then have "\<bar>y - z\<bar> = \<bar>of_int m - z / 2 powi e\<bar> * 2 powi e"
    using pos by (simp add: abs_mult)
  also have "\<dots> \<le> (1 / 2) * 2 powi e"
    using round_even_error [of "z / 2 powi e"] pos
    by (intro mult_right_mono) (simp_all add: m_def)
  also have "\<dots> \<le> (1 / 2) * (1 / 2 ^ 38)"
    using small by simp
  finally have near: "\<bar>y - z\<bar> \<le> 1 / 2 ^ 39"
    by simp
  then have "\<bar>y\<bar> < 2 ^ 16"
    using assms by (simp add: abs_if split: if_splits)
  then have "expo y < 1024"
    using expo_less [of y 16] by simp
  then have "round_double z = Finite y"
    using False by (simp add: round_double_def Let_def e_def m_def y_def)
  moreover have "0 \<le> y" if "0 \<le> z"
    using that pos round_even_nonneg [of "z / 2 powi e"] by (simp add: y_def m_def)
  ultimately show ?thesis
    using near by blast
qed


lemma pow2_le_of_int: "2 ^ k \<le> n \<Longrightarrow> (2::rat) ^ k \<le> of_int n"
proof -
  assume "2 ^ k \<le> n"
  then have "(of_int (2 ^ k) :: rat) \<le> of_int n"
    by (simp only: of_int_le_iff)
  then show ?thesis by simp
qed

lemma of_int_less_pow2: "n < 2 ^ k \<Longrightarrow> (of_int n :: rat) + 1 \<le> 2 ^ k"
proof -
  assume "n < 2 ^ k"
  then have "n + 1 \<le> 2 ^ k" by simp
  then have "(of_int (n + 1) :: rat) \<le> of_int (2 ^ k)"
    by (simp only: of_int_le_iff)
  then show ?thesis by simp
qed

lemma expo_bracket:
  assumes "x \<noteq> 0"
  shows "2 powi expo x \<le> \<bar>x\<bar> \<and> \<bar>x\<bar> < 2 powi (expo x + 1)"
proof (cases "1 \<le> \<bar>x\<bar>")
  case True
  define n where "n = \<lfloor>\<bar>x\<bar>\<rfloor>"
  from True have n: "0 < n" by (simp add: n_def)
  then have b: "1 \<le> bitlen n"
    by (simp add: bitlen_alt_def)
  have e: "expo x = bitlen n - 1"
    using True by (simp add: expo_def n_def)
  from bitlen_bounds [OF n] have i1: "2 ^ nat (bitlen n - 1) \<le> n"
    and i2: "n < 2 ^ nat (bitlen n)"
    by blast+
  from i1 have low: "(2::rat) ^ nat (bitlen n - 1) \<le> of_int n"
    by (rule pow2_le_of_int)
  from i2 have high: "(of_int n :: rat) + 1 \<le> 2 ^ nat (bitlen n)"
    by (rule of_int_less_pow2)
  have x: "of_int n \<le> \<bar>x\<bar>" "\<bar>x\<bar> < of_int n + 1"
    unfolding n_def by linarith+
  have p: "(2::rat) powi (bitlen n - 1) = 2 ^ nat (bitlen n - 1)"
    "(2::rat) powi (bitlen n - 1 + 1) = 2 ^ nat (bitlen n)"
    using b by (simp_all add: power_int_def)
  from low x(1) have "2 powi expo x \<le> \<bar>x\<bar>"
    unfolding e p by linarith
  moreover from high x(2) have "\<bar>x\<bar> < 2 powi (expo x + 1)"
    unfolding e p by linarith
  ultimately show ?thesis ..
next
  case False
  define y where "y = 1 / \<bar>x\<bar>"
  define c where "c = \<lceil>y\<rceil>"
  define b where "b = bitlen (c - 1)"
  from False assms have y: "1 < y" "0 < \<bar>x\<bar>"
    by (simp_all add: y_def)
  have cy: "of_int (c - 1) < y" "y \<le> of_int c"
    unfolding c_def by linarith+
  with y(1) have "(1::rat) < of_int c" by linarith
  then have c: "0 < c - 1" by simp
  then have b1: "1 \<le> b"
    by (simp add: b_def bitlen_alt_def)
  have e: "expo x = - b"
    using False by (simp add: expo_def y_def c_def b_def)
  from bitlen_bounds [OF c] have i1: "2 ^ nat (b - 1) \<le> c - 1"
    and i2: "c - 1 < 2 ^ nat b"
    unfolding b_def by blast+
  from i1 have low: "(2::rat) ^ nat (b - 1) \<le> of_int (c - 1)"
    by (rule pow2_le_of_int)
  from i2 have high: "(of_int (c - 1) :: rat) + 1 \<le> 2 ^ nat b"
    by (rule of_int_less_pow2)
  from low cy(1) have 1: "2 ^ nat (b - 1) < y" by linarith
  from high have "(of_int c :: rat) \<le> 2 ^ nat b"
    by (simp only: of_int_diff of_int_1 diff_add_cancel)
  with cy(2) have 2: "y \<le> 2 ^ nat b" by (rule order_trans)
  from 1 y(2) have 3: "\<bar>x\<bar> < 1 / 2 ^ nat (b - 1)"
    by (simp add: y_def field_simps)
  from 2 y(2) have 4: "1 / 2 ^ nat b \<le> \<bar>x\<bar>"
    by (simp add: y_def field_simps)
  have p: "(2::rat) powi (- b) = 1 / 2 ^ nat b"
    using b1 by (simp add: power_int_def field_simps)
  have "(2::rat) powi (b - 1) = 2 ^ nat (b - 1)"
    using b1 by (simp add: power_int_def)
  then have q: "(2::rat) powi (- b + 1) = 1 / 2 ^ nat (b - 1)"
    using power_int_minus [of "2::rat" "b - 1"] by (simp add: field_simps)
  from 3 4 show ?thesis
    unfolding e p q by simp
qed

lemma subseq_map_obtain:
  "subseq c (map f xs) \<Longrightarrow> \<exists>ys. subseq ys xs \<and> c = map f ys"
proof (induction xs arbitrary: c)
  case Nil
  then show ?case by (auto dest: list_emb_Nil2)
next
  case (Cons x xs)
  show ?case
  proof (cases c)
    case Nil
    then show ?thesis by auto
  next
    case (Cons d ds)
    show ?thesis
    proof (cases "d = f x")
      case True
      with Cons Cons.prems have "subseq ds (map f xs)" by simp
      then obtain ys where "subseq ys xs" "ds = map f ys"
        using Cons.IH by blast
      with True Cons have "subseq (x # ys) (x # xs) \<and> c = map f (x # ys)" by simp
      then show ?thesis by blast
    next
      case False
      with Cons Cons.prems have "subseq c (map f xs)" by simp
      then obtain ys where "subseq ys xs" "c = map f ys"
        using Cons.IH by blast
      then have "subseq ys (x # xs) \<and> c = map f ys" by (simp add: list_emb_Cons)
      then show ?thesis by blast
    qed
  qed
qed

lemma subseq_sum_le:
  fixes xs :: "rat list"
  shows "subseq ys xs \<Longrightarrow> \<forall>x\<in>set xs. 0 \<le> x \<Longrightarrow> sum_list ys \<le> sum_list xs"
  by (induction rule: list_emb.induct) (auto intro: add_increasing simp: sum_list_nonneg)

lemma fold_round_double:
  assumes "\<forall>d\<in>set ds. 0 \<le> d"
    and "0 \<le> a"
    and "a + sum_list ds + of_nat (length ds) / 2 ^ 38 < 2 ^ 15"
  shows "\<exists>s. foldl (+) (Finite a) (map round_double ds) = Finite s \<and> 0 \<le> s \<and>
           s \<le> a + sum_list ds + of_nat (length ds) / 2 ^ 38"
  using assms
proof (induction ds arbitrary: a)
  case Nil
  then show ?case by simp
next
  case (Cons d ds)
  from Cons.prems have d: "0 \<le> d" and rest: "\<forall>d\<in>set ds. 0 \<le> d"
    by simp_all
  then have sum: "0 \<le> sum_list ds"
    by (simp add: sum_list_nonneg)
  have len: "(0::rat) \<le> of_nat (length ds) / 2 ^ 38"
    by simp
  have step: "of_nat (length (d # ds)) / 2 ^ 38 = of_nat (length ds) / 2 ^ 38 + (1::rat) / 2 ^ 38"
    by (simp add: field_simps)
  from Cons.prems(3) have bound: "a + d + sum_list ds + of_nat (length ds) / 2 ^ 38 + 1 / 2 ^ 38 < 2 ^ 15"
    by (simp add: add_divide_distrib)
  with d Cons.prems(2) sum len have "\<bar>d\<bar> < 2 ^ 15"
    by simp
  then obtain v where v: "round_double d = Finite v" "\<bar>v - d\<bar> \<le> 1 / 2 ^ 39" "0 \<le> v"
    using round_double_near [of d] d by blast
  with bound Cons.prems(2) sum len have "\<bar>a + v\<bar> < 2 ^ 15"
    by (simp add: abs_if split: if_splits)
  then obtain a' where a': "round_double (a + v) = Finite a'" "\<bar>a' - (a + v)\<bar> \<le> 1 / 2 ^ 39"
      "0 \<le> a'"
    using round_double_near [of "a + v"] v(3) Cons.prems(2) by auto
  from v(2) a'(2) have close: "a' \<le> a + d + 1 / 2 ^ 38"
    by (simp add: abs_if split: if_splits)
  with bound have "a' + sum_list ds + of_nat (length ds) / 2 ^ 38 < 2 ^ 15"
    by simp
  then obtain s where s: "foldl (+) (Finite a') (map round_double ds) = Finite s" "0 \<le> s"
      "s \<le> a' + sum_list ds + of_nat (length ds) / 2 ^ 38"
    using Cons.IH [OF rest a'(3)] by blast
  have "foldl (+) (Finite a) (map round_double (d # ds)) = Finite s"
    by (simp add: v(1) plus_double_def a'(1) s(1))
  moreover from s(3) close have "s \<le> a + sum_list (d # ds) + of_nat (length (d # ds)) / 2 ^ 38"
    by (simp add: add_divide_distrib)
  ultimately show ?case
    using s(2) by blast
qed

section \<open>Properties of the reconciliation search\<close>

lemma scan_combinations_eq:
  "scan_combinations tol tgt cs s =
     s\<lparr>printed := printed s @ map (\<lambda>c. Match (py_sum c) c) (filter (is_match tol tgt) cs),
       examined := examined s @ cs\<rparr>"
  by (induction cs arbitrary: s) simp_all

subsection \<open>The enumeration of \<^verbatim>\<open>itertools.combinations\<close>\<close>

lemma combinations_filter_subseqs:
  "combinations xs r = filter (\<lambda>ys. length ys = r) (subseqs xs)"
proof (induction xs r rule: combinations.induct)
  case (1 xs)
  then show ?case
    by (induction xs) (simp_all add: Let_def filter_map o_def)
next
  case (2 r)
  then show ?case by simp
next
  case (3 x xs r)
  then show ?case by (simp add: Let_def filter_map o_def)
qed

lemma combinations_map: "combinations (map f xs) r = map (map f) (combinations xs r)"
  by (induction xs r rule: combinations.induct) simp_all

lemma combinations_length: "ys \<in> set (combinations xs r) \<Longrightarrow> length ys = r"
  by (simp add: combinations_filter_subseqs)

lemma combinations_subseq: "ys \<in> set (combinations xs r) \<Longrightarrow> subseq ys xs"
  by (simp add: combinations_filter_subseqs)

lemma subseq_set_mono: "subseq ys xs \<Longrightarrow> set ys \<subseteq> set xs"
  by (induction rule: list_emb.induct) auto

lemma subseq_hd_in: "subseq (y # ys) xs \<Longrightarrow> y \<in> set xs"
  by (drule subseq_set_mono) simp

lemma combinations_sorted:
  fixes xs :: "'a::linorder list"
  shows "sorted_wrt (<) xs \<Longrightarrow> sorted_wrt (<) (combinations xs r)"
proof (induction xs r rule: combinations.induct)
  case (3 x xs r)
  have below: "x # a < b" if "b \<in> set (combinations xs (Suc r))" for a b
  proof -
    from that have "length b = Suc r" "subseq b xs"
      by (auto dest: combinations_length combinations_subseq)
    then obtain y b' where b: "b = y # b'" by (cases b) auto
    with \<open>subseq b xs\<close> have "y \<in> set xs"
      by (auto dest: subseq_hd_in)
    with 3(3) have "x < y" by auto
    then show ?thesis by (simp add: b)
  qed
  from 3 have "sorted_wrt (<) (combinations xs r)" "sorted_wrt (<) (combinations xs (Suc r))"
    by auto
  then show ?case using below
    by (auto simp: sorted_wrt_append sorted_wrt_map)
qed simp_all


lemma subseq_sorted_wrt: "subseq ys xs \<Longrightarrow> sorted_wrt P xs \<Longrightarrow> sorted_wrt P ys"
proof (induction rule: list_emb.induct)
  case (list_emb_Cons2 x y xs ys)
  then have "set xs \<subseteq> set ys"
    by (simp add: subseq_set_mono)
  with list_emb_Cons2 show ?case by auto
qed simp_all

lemma subseq_upt_iff:
  "subseq is [0..<n] \<longleftrightarrow> sorted_wrt (<) is \<and> set is \<subseteq> {..<n}"
proof
  assume s: "subseq is [0..<n]"
  then have "sorted_wrt (<) is"
    by (rule subseq_sorted_wrt) simp
  moreover from s have "set is \<subseteq> set [0..<n]"
    by (rule subseq_set_mono)
  ultimately show "sorted_wrt (<) is \<and> set is \<subseteq> {..<n}"
    by (simp add: lessThan_atLeast0)
next
  assume "sorted_wrt (<) is \<and> set is \<subseteq> {..<n}"
  then show "subseq is [0..<n]"
    by (intro sorted_subset_imp_subseq) (simp_all add: lessThan_atLeast0)
qed

lemma index_combinations:
  "combinations [0..<n] r = lex_index_tuples n r"
proof -
  have "sorted_wrt (<) (combinations [0..<n] r)"
    by (rule combinations_sorted) simp
  then have 1: "sorted (combinations [0..<n] r)" "distinct (combinations [0..<n] r)"
    by (simp_all add: strict_sorted_iff)
  have 2: "set (combinations [0..<n] r) = set (filter (sorted_wrt (<)) (List.n_lists r [0..<n]))"
    by (auto simp: combinations_filter_subseqs set_n_lists subseq_upt_iff)
  have 3: "distinct (filter (sorted_wrt (<)) (List.n_lists r [0..<n]))"
    by (simp add: distinct_n_lists)
  show ?thesis
    unfolding lex_index_tuples_def
    by (rule sorted_distinct_set_unique) (use 1 2 3 in simp_all)
qed

lemma combinations_nth:
  "combinations xs r = map (map ((!) xs)) (combinations [0..<length xs] r)"
proof -
  have "combinations (map ((!) xs) [0..<length xs]) r
          = map (map ((!) xs)) (combinations [0..<length xs] r)"
    by (rule combinations_map)
  then show ?thesis by (simp only: map_nth)
qed

lemma combinations_lex: "combinations pool r = lex_combinations pool r"
  by (simp add: combinations_nth[of pool] lex_combinations_def index_combinations)

lemma combinations_full: "combinations xs (length xs) = [xs]"
proof (induction xs)
  case (Cons x xs)
  have "combinations xs (Suc (length xs)) = []"
    by (auto simp: combinations_filter_subseqs filter_empty_conv dest: list_emb_length)
  with Cons show ?case by simp
qed simp

subsection \<open>A run in closed form\<close>

lemma py_range_sizes:
  "py_range (int n - 2) (int n + 1) = [int n - 2, int n - 1, int n]"
proof -
  have "[int n - 2..int n] = (int n - 2) # [int n - 1..int n]"
    by (subst upto_rec1) simp_all
  also have "[int n - 1..int n] = (int n - 1) # [int n..int n]"
    by (subst upto_rec1) simp_all
  finally show ?thesis by (simp add: py_range_def)
qed

lemma find_sum_large:
  assumes "2 \<le> length pool"
  shows "find_sum tol pool tgt =
    \<lparr>printed =
       map (\<lambda>c. Match (py_sum c) c) (filter (is_match tol tgt) (near_full_combinations pool))
         @ [Search_done],
     examined = near_full_combinations pool, raised = None\<rparr>"
proof -
  have "nat (int (length pool) - 2) = length pool - 2"
    and "nat (int (length pool) - 1) = length pool - 1"
    by simp_all
  moreover from assms have "pool \<noteq> []" by auto
  ultimately show ?thesis using assms
    by (simp add: find_sum_def py_range_sizes itertools_combinations_def scan_combinations_eq
        near_full_combinations_def Let_def)
qed

lemma find_sum_small:
  assumes "length pool < 2"
  shows "find_sum tol pool tgt = \<lparr>printed = [], examined = [], raised = Some ValueError\<rparr>"
  using assms
  by (simp add: find_sum_def py_range_sizes itertools_combinations_def Let_def)

lemma near_full_subseq: "c \<in> set (near_full_combinations pool) \<Longrightarrow> subseq c pool"
  by (auto simp: near_full_combinations_def dest: combinations_subseq)

text \<open>
  Claim C4. For every pool and every target, each line \<open>MATCH\<close> that the search prints
  names a combination it examined whose sum differs from the target by less than 0.05, and
  shows that sum: no combination outside the tolerance is reported. This holds in every
  arithmetic, the sum and the difference being the ones the run computes.
\<close>

theorem find_sum_match_within_tolerance:
  "Match v c \<in> set (printed (find_sum tol pool tgt)) \<Longrightarrow>
     \<bar>py_sum c - tgt\<bar> < tol \<and> v = py_sum c \<and> c \<in> set (examined (find_sum tol pool tgt))"
proof (cases "2 \<le> length pool")
  case True
  assume "Match v c \<in> set (printed (find_sum tol pool tgt))"
  with True show ?thesis
    by (auto simp: find_sum_large is_match_def)
next
  case False
  assume "Match v c \<in> set (printed (find_sum tol pool tgt))"
  with False show ?thesis
    by (simp add: find_sum_small)
qed

text \<open>
  Witness for C4, in floating point: the pool \<open>1e16, 1.0, -1e16\<close> and the target \<open>0.0\<close>.
  The run adds \<open>1e16 + 1.0\<close> to \<open>1e16\<close> and reports the whole pool with the sum \<open>0.0\<close>,
  its exact sum being 1.
\<close>

theorem find_sum_match_within_tolerance_witness:
  "Match 0 [Finite (10 ^ 16), Finite 1, Finite (- (10 ^ 16))]
     \<in> set (printed (find_sum tolerance [Finite (10 ^ 16), Finite 1, Finite (- (10 ^ 16))] 0)) \<and>
   \<bar>py_sum [Finite (10 ^ 16), Finite 1, Finite (- (10 ^ 16))] - 0\<bar> < tolerance \<and>
   py_sum [Finite (10 ^ 16), Finite 1, Finite (- (10 ^ 16))] = 0"
proof -
  let ?pool = "[Finite (10 ^ 16), Finite 1, Finite (- (10 ^ 16))]"
  have sum: "py_sum ?pool = 0"
    by code_simp
  have near: "\<bar>py_sum ?pool - 0\<bar> < tolerance"
    unfolding sum by code_simp
  have "combinations ?pool (length ?pool) = [?pool]"
    by (rule combinations_full)
  then have "?pool \<in> set (near_full_combinations ?pool)"
    by (simp add: near_full_combinations_def)
  with near have "Match (py_sum ?pool) ?pool \<in> set (printed (find_sum tolerance ?pool 0))"
    by (simp add: find_sum_large is_match_def)
  then have m: "Match 0 ?pool \<in> set (printed (find_sum tolerance ?pool 0))"
    by (simp only: sum)
  note r = find_sum_match_within_tolerance [OF m]
  from r have a: "\<bar>py_sum ?pool - 0\<bar> < tolerance"
    by (rule conjunct1)
  from r have "0 = py_sum ?pool"
    by (rule conjunct2 [THEN conjunct1])
  then have b: "py_sum ?pool = 0"
    by (rule sym)
  from m a b show ?thesis
    by (intro conjI)
qed

text \<open>
  Claim C5, as amended. For every pool of at least two values the search raises nothing and
  examines exactly the combinations of the sizes \<open>N - 2\<close>, \<open>N - 1\<close> and \<open>N\<close>, in this
  order of sizes and within a size in lexicographic order of the positions in the pool;
  it examines no combination of another size.
\<close>

theorem find_sum_examines_near_full_sizes:
  assumes "2 \<le> length pool"
  shows "raised (find_sum tol pool tgt) = None \<and>
    examined (find_sum tol pool tgt) =
      lex_combinations pool (length pool - 2) @ lex_combinations pool (length pool - 1)
        @ lex_combinations pool (length pool) \<and>
    (\<forall>c\<in>set (examined (find_sum tol pool tgt)).
       length c = length pool - 2 \<or> length c = length pool - 1 \<or> length c = length pool)"
  using assms
  by (auto simp: find_sum_large near_full_combinations_def combinations_lex [symmetric]
      dest: combinations_length)

text \<open>Witness for C5: the pool 1, 2, 3.\<close>

theorem find_sum_examines_near_full_sizes_witness:
  "2 \<le> length [1, 2, 3 :: rat] \<and> raised (find_sum (5 / 100) [1, 2, 3 :: rat] 5) = None \<and>
   examined (find_sum (5 / 100) [1, 2, 3 :: rat] 5) = [[1], [2], [3], [1, 2], [1, 3], [2, 3], [1, 2, 3]] \<and>
   lex_combinations [1, 2, 3 :: rat] 1 = [[1], [2], [3]] \<and>
   lex_combinations [1, 2, 3 :: rat] 2 = [[1, 2], [1, 3], [2, 3]] \<and>
   lex_combinations [1, 2, 3 :: rat] 3 = [[1, 2, 3]]"
  using find_sum_examines_near_full_sizes [of "[1, 2, 3 :: rat]" "5 / 100" 5]
  by (simp add: combinations_lex [symmetric] eval_nat_numeral)

text \<open>
  Counterexample to C5 as stated: with a pool of one value the first size is \<open>-1\<close>,
  \<^verbatim>\<open>itertools.combinations\<close> raises \<open>ValueError\<close>, and the combinations of the sizes 0 and
  1 are never examined.
\<close>

theorem find_sum_singleton_pool_raises:
  "examined (find_sum (5 / 100) [1 :: rat] 1) = [] \<and>
   raised (find_sum (5 / 100) [1 :: rat] 1) = Some ValueError \<and>
   lex_combinations [1 :: rat] 0 @ lex_combinations [1] 1 = [[], [1]]"
  by (simp add: find_sum_small combinations_lex [symmetric])

section \<open>The reconciliation search on the pool of the script\<close>

lemma all_vals_literals: "all_vals = map round_double all_literals"
  by (simp add: all_vals_def deposits_def transfers_def divs_def all_literals_def)

lemma all_literals_total: "sum_list all_literals = 1676113 / 100"
  by (simp add: all_literals_def deposit_literals_def transfer_literals_def div_literals_def)

lemma all_literals_nonneg: "\<forall>x\<in>set all_literals. 0 \<le> x"
  by (simp add: all_literals_def deposit_literals_def transfer_literals_def div_literals_def)

lemma all_vals_length: "length all_vals = 26"
  by (simp add: all_vals_def deposits_def transfers_def divs_def deposit_literals_def
      transfer_literals_def div_literals_def)

lemma script_sum_bound:
  assumes "subseq c all_vals"
  shows "\<exists>s. py_sum c = Finite s \<and> 0 \<le> s \<and> s \<le> 16762"
proof -
  from assms obtain ds where ds: "subseq ds all_literals" "c = map round_double ds"
    unfolding all_vals_literals by (auto dest: subseq_map_obtain)
  then have nonneg: "\<forall>d\<in>set ds. 0 \<le> d"
    using all_literals_nonneg subseq_set_mono [OF ds(1)] by auto
  from ds(1) have "sum_list ds \<le> 1676113 / 100"
    using subseq_sum_le [OF _ all_literals_nonneg] by (simp add: all_literals_total)
  moreover from ds(1) have "length ds \<le> 26"
    using list_emb_length [of "(=)" ds all_literals] all_vals_length
    by (simp add: all_vals_literals)
  then have "(of_nat (length ds) :: rat) / 2 ^ 38 \<le> 26 / 2 ^ 38"
    by (simp add: divide_right_mono)
  ultimately have b: "0 + sum_list ds + of_nat (length ds) / 2 ^ 38 \<le> 1676113 / 100 + 26 / 2 ^ 38"
    by simp
  then have "0 + sum_list ds + of_nat (length ds) / 2 ^ 38 < 2 ^ 15"
    by simp
  then obtain s where "foldl (+) (Finite 0) (map round_double ds) = Finite s" "0 \<le> s"
      "s \<le> 0 + sum_list ds + of_nat (length ds) / 2 ^ 38"
    using fold_round_double [OF nonneg, of 0] by blast
  with b show ?thesis
    by (auto simp: py_sum_def zero_double_def ds(2))
qed

lemma script_no_match:
  assumes "subseq c all_vals"
  shows "\<not> is_match tolerance target c"
proof -
  obtain s where s: "py_sum c = Finite s" "0 \<le> s" "s \<le> 16762"
    using script_sum_bound [OF assms] by blast
  obtain t where t: "target = Finite t" "\<bar>t - 1680966 / 100\<bar> \<le> 1 / 2 ^ 39"
    using round_double_near [of "1680966 / 100"] by (auto simp: target_def)
  obtain u where u: "tolerance = Finite u" "\<bar>u - 5 / 100\<bar> \<le> 1 / 2 ^ 39"
    using round_double_near [of "5 / 100"] by (auto simp: tolerance_def)
  from s t have "\<bar>s - t\<bar> < 2 ^ 15"
    by (simp add: abs_if split: if_splits)
  then obtain y where y: "round_double (s - t) = Finite y" "\<bar>y - (s - t)\<bar> \<le> 1 / 2 ^ 39"
    using round_double_near [of "s - t"] by blast
  from s(3) t(2) y(2) have "y \<le> - 47"
    by (simp add: abs_if split: if_splits)
  moreover from u(2) have "u \<le> 1"
    by (simp add: abs_if split: if_splits)
  ultimately have "\<not> \<bar>y\<bar> < u"
    by simp
  moreover have "py_sum c - target = Finite y"
    by (simp add: s(1) t(1) minus_double_def y(1))
  ultimately show ?thesis
    by (simp add: is_match_def u(1) abs_double_def less_double_def)
qed

text \<open>
  Counterexample to C1 as stated: on the pool, the target and the tolerance of the script,
  in floating point, the run prints the completion line and nothing else, so no subset
  is reported.
\<close>

theorem find_sum_script_prints_only_done:
  "printed (find_sum tolerance all_vals target) = [Search_done]"
proof -
  have "filter (is_match tolerance target) (near_full_combinations all_vals) = []"
    by (simp add: filter_empty_conv script_no_match near_full_subseq)
  then show ?thesis
    by (simp add: find_sum_large all_vals_length)
qed

text \<open>
  Claim C1, as amended. On the pool, the target and the tolerance of the script the search
  ends without an exception and reports no subset: of no combination it examines is the
  sum within the tolerance of the target, and the completion line is all that is printed.
\<close>

theorem find_sum_script_reports_nothing:
  "raised (find_sum tolerance all_vals target) = None \<and>
   (\<forall>c\<in>set (examined (find_sum tolerance all_vals target)). \<not> is_match tolerance target c) \<and>
   printed (find_sum tolerance all_vals target) = [Search_done]"
proof -
  have none: "\<not> is_match tolerance target c" if "c \<in> set (near_full_combinations all_vals)" for c
    using that by (intro script_no_match near_full_subseq)
  then have "filter (is_match tolerance target) (near_full_combinations all_vals) = []"
    by (simp add: filter_empty_conv)
  then have "find_sum tolerance all_vals target =
      \<lparr>printed = [Search_done], examined = near_full_combinations all_vals, raised = None\<rparr>"
    by (simp add: find_sum_large all_vals_length)
  with none show ?thesis
    by simp
qed

text \<open>Witness for C1: the whole pool, the last combination examined.\<close>

theorem find_sum_script_reports_nothing_witness:
  "all_vals \<in> set (examined (find_sum tolerance all_vals target)) \<and>
   \<not> is_match tolerance target all_vals"
proof -
  have "combinations all_vals (length all_vals) = [all_vals]"
    by (rule combinations_full)
  then have "all_vals \<in> set (examined (find_sum tolerance all_vals target))"
    by (simp add: find_sum_large all_vals_length near_full_combinations_def)
  with find_sum_script_reports_nothing show ?thesis
    by blast
qed

text \<open>
  The figures of the run itself: added from the left in floating point the 26 values give
  the double nearest to 16761.13, and the difference to the target is the double that
  Python prints as \<open>48.529999999998836\<close>.
\<close>

lemma script_sum_as_computed:
  "py_sum all_vals = Finite (4607264332416287 / 2 ^ 38) \<and>
   target - py_sum all_vals = Finite (1667478102999 / 2 ^ 35)"
  by code_simp

section \<open>Properties of the statement table locator\<close>

subsection \<open>Text operations\<close>

text \<open>
  What makes \<open>split\<close>, \<open>strip\<close> and \<open>occurs_in\<close> the operations of Python: joining the
  segments with the separator gives the string back; a stripped string is a piece of the
  original that neither starts nor ends with whitespace; \<open>occurs_in\<close> is the contiguous
  sublist relation.
\<close>

lemma split_nonempty: "split sep s \<noteq> []"
  by (induction s) (simp_all split: list.splits)

lemma split_join: "concat (map ((#) sep) (split sep s)) = sep # s"
proof (induction s)
  case (Cons c s)
  then show ?case
    using split_nonempty [of sep s] by (cases "split sep s") auto
qed simp

lemma strip_decompose:
  "dropWhile py_isspace s =
     strip s @ rev (takeWhile py_isspace (rev (dropWhile py_isspace s)))"
proof -
  let ?t = "dropWhile py_isspace s"
  have "rev ?t = takeWhile py_isspace (rev ?t) @ dropWhile py_isspace (rev ?t)"
    by simp
  then have "rev (rev ?t) =
      rev (dropWhile py_isspace (rev ?t)) @ rev (takeWhile py_isspace (rev ?t))"
    by (simp only: rev_append [symmetric])
  then show ?thesis
    by (simp add: strip_def)
qed

lemma strip_sublist: "sublist (strip s) s"
proof -
  have "prefix (strip s) (dropWhile py_isspace s)"
    using strip_decompose [of s] by (metis prefixI)
  moreover have "suffix (dropWhile py_isspace s) s"
    by (rule suffix_dropWhile)
  ultimately show ?thesis
    unfolding sublist_altdef' by blast
qed

lemma strip_ends:
  assumes "strip s \<noteq> []"
  shows "\<not> py_isspace (hd (strip s)) \<and> \<not> py_isspace (last (strip s))"
proof -
  let ?t = "dropWhile py_isspace s"
  let ?u = "dropWhile py_isspace (rev ?t)"
  from assms have u: "?u \<noteq> []"
    by (simp add: strip_def)
  then have "\<not> py_isspace (hd ?u)"
    by (rule hd_dropWhile)
  with u have l: "\<not> py_isspace (last (strip s))"
    by (simp add: strip_def last_rev)
  from assms have "hd ?t = hd (strip s)"
    using strip_decompose [of s] by (metis hd_append2)
  moreover from assms have "?t \<noteq> []"
    using strip_decompose [of s] by (metis append_is_Nil_conv)
  then have "\<not> py_isspace (hd ?t)"
    by (rule hd_dropWhile)
  ultimately show ?thesis
    using l by simp
qed

lemma occurs_in_sublist: "occurs_in sub s \<longleftrightarrow> sublist sub s"
  by (induction s) (simp_all add: sublist_Cons_right)

text \<open>The definitions to unfold when a concrete tree is evaluated.\<close>

lemmas keyword_defs =
  ustr_def kw_transfert_def kw_deboursement_def kw_depots_def kw_date_def kw_description_def
  kw_montant_def kw_symbole_def kw_achat_def kw_vente_def

lemmas tree_defs =
  find_all_def get_text_def get_text_strip_def strip_def py_isspace_def header_cells_def
  data_cells_def

subsection \<open>The loops never raise\<close>

text \<open>
  \<^verbatim>\<open>rows[0]\<close> is reached only behind the test \<^verbatim>\<open>if not rows\<close>, so neither loop body raises,
  and the output of a list of tables is the outputs of its tables in order.
\<close>

lemma cash_table_no_error: "cash_table t \<noteq> Inl e"
  by (cases "find_all [ustr ''tr''] t") (simp_all add: cash_table_def Let_def py_first_def)

lemma summarize_table_no_error: "summarize_table t \<noteq> Inl e"
  by (cases "find_all [ustr ''tr''] t") (simp_all add: summarize_table_def Let_def py_first_def)

lemma cash_table_Inr: "\<exists>out. cash_table t = Inr out"
  using cash_table_no_error [of t] by (cases "cash_table t") auto

lemma summarize_table_Inr: "\<exists>out. summarize_table t = Inr out"
  using summarize_table_no_error [of t] by (cases "summarize_table t") auto

lemma cash_tables_append:
  "cash_tables (ts @ us) =
     (fst (cash_tables ts) @ fst (cash_tables us), snd (cash_tables us))"
proof (induction ts)
  case (Cons t ts)
  obtain out where "cash_table t = Inr out"
    using cash_table_Inr by blast
  with Cons show ?case by (simp add: split_beta)
qed simp

lemma cash_tables_no_error: "snd (cash_tables ts) = None"
proof (induction ts)
  case (Cons t ts)
  obtain out where "cash_table t = Inr out"
    using cash_table_Inr by blast
  with Cons show ?case by (simp add: split_beta)
qed simp

lemma ibkr_table_cases: "ibkr_table t = None \<or> ibkr_table t = Some (summarize_table t)"
  by (simp add: ibkr_table_def Let_def)

lemma ibkr_tables_append:
  "ibkr_tables (ts @ us) =
     (fst (ibkr_tables ts) @ fst (ibkr_tables us), snd (ibkr_tables us))"
proof (induction ts)
  case (Cons t ts)
  obtain out where out: "summarize_table t = Inr out"
    using summarize_table_Inr by blast
  from ibkr_table_cases [of t] show ?case
  proof
    assume "ibkr_table t = None"
    with Cons show ?thesis by simp
  next
    assume "ibkr_table t = Some (summarize_table t)"
    with Cons out show ?thesis by (simp add: split_beta)
  qed
qed simp

lemma ibkr_tables_no_error: "snd (ibkr_tables ts) = None"
proof (induction ts)
  case (Cons t ts)
  obtain out where out: "summarize_table t = Inr out"
    using summarize_table_Inr by blast
  from ibkr_table_cases [of t] show ?case
  proof
    assume "ibkr_table t = None"
    with Cons show ?thesis by simp
  next
    assume "ibkr_table t = Some (summarize_table t)"
    with Cons out show ?thesis by (simp add: split_beta)
  qed
qed simp

subsection \<open>Classification of one table\<close>

text \<open>
  Claim C3. A table whose full text contains one of the two cash-movement keywords and
  whose row 0 has cells reading exactly \<open>Date\<close>, \<open>Description\<close> and \<open>Montant\<close> is
  classified as a cash-movement table: the script prints the banner and then the cells of
  every row after row 0, for the table alone and within any document that holds it.
\<close>

theorem cash_table_classified:
  assumes "occurs_in kw_transfert (get_text t) \<or> occurs_in kw_deboursement (get_text t)"
    and "find_all [ustr ''tr''] t = row0 # rest"
    and "kw_date \<in> set (header_cells row0)"
    and "kw_description \<in> set (header_cells row0)"
    and "kw_montant \<in> set (header_cells row0)"
  shows "cash_table t = Inr (Candidate_cash_table # map (\<lambda>r. Cells (data_cells r)) rest) \<and>
    (\<forall>soup. t \<in> set (find_all [ustr ''table''] soup) \<longrightarrow>
       (\<exists>before after. parse_cash soup =
          (before @ Candidate_cash_table # map (\<lambda>r. Cells (data_cells r)) rest @ after, None)))"
proof -
  let ?out = "Candidate_cash_table # map (\<lambda>r. Cells (data_cells r)) rest"
  from assms have c: "cash_table t = Inr ?out"
    by (simp add: cash_table_def Let_def py_first_def)
  have "\<exists>before after. parse_cash soup = (before @ ?out @ after, None)"
    if "t \<in> set (find_all [ustr ''table''] soup)" for soup
  proof -
    from that obtain ts us where "find_all [ustr ''table''] soup = ts @ t # us"
      by (auto dest: split_list)
    then have "parse_cash soup = (fst (cash_tables ts) @ ?out @ fst (cash_tables us), None)"
      by (simp add: parse_cash_def cash_tables_append [of ts] c split_beta cash_tables_no_error)
    then show ?thesis by blast
  qed
  with c show ?thesis by simp
qed


text \<open>Witness for C3: a withdrawal table of two rows, alone and after a table without rows.\<close>

theorem cash_table_classified_witness:
  "occurs_in kw_deboursement (get_text withdrawal_table) \<and>
   kw_date \<in> set (header_row withdrawal_table) \<and>
   kw_description \<in> set (header_row withdrawal_table) \<and>
   kw_montant \<in> set (header_row withdrawal_table) \<and>
   cash_table withdrawal_table =
     Inr [Candidate_cash_table, Cells [ustr ''2025-03-01'', kw_deboursement, ustr ''-100.00'']] \<and>
   parse_cash (Tag [] [empty_table, withdrawal_table]) =
     ([Candidate_cash_table, Cells [ustr ''2025-03-01'', kw_deboursement, ustr ''-100.00'']], None)"
proof -
  let ?row0 = "Tag (ustr ''tr'')
          [Tag (ustr ''th'') [Text (ustr ''Date'')], Tag (ustr ''th'') [Text (ustr ''Description'')],
           Tag (ustr ''th'') [Text (ustr ''Montant'')]]"
  let ?row1 = "Tag (ustr ''tr'')
          [Tag (ustr ''td'') [Text (ustr ''2025-03-01'')], Tag (ustr ''td'') [Text kw_deboursement],
           Tag (ustr ''td'') [Text (ustr '' -100.00 '')]]"
  have 0: "occurs_in kw_deboursement (get_text withdrawal_table)"
    by (simp add: withdrawal_table_def tree_defs keyword_defs)
  then have 1: "occurs_in kw_transfert (get_text withdrawal_table) \<or>
        occurs_in kw_deboursement (get_text withdrawal_table)" ..
  have 2: "find_all [ustr ''tr''] withdrawal_table = ?row0 # [?row1]"
    by (simp add: withdrawal_table_def tree_defs keyword_defs)
  have 3: "kw_date \<in> set (header_cells ?row0)" "kw_description \<in> set (header_cells ?row0)"
    "kw_montant \<in> set (header_cells ?row0)"
    by (simp_all add: tree_defs keyword_defs)
  have 4: "data_cells ?row1 = [ustr ''2025-03-01'', kw_deboursement, ustr ''-100.00'']"
    by (simp add: tree_defs keyword_defs)
  have 5: "withdrawal_table \<in> set (find_all [ustr ''table''] (Tag [] [empty_table, withdrawal_table]))"
    by (simp add: withdrawal_table_def empty_table_def tree_defs keyword_defs)
  have 6: "parse_cash (Tag [] [empty_table, withdrawal_table]) =
     ([Candidate_cash_table, Cells [ustr ''2025-03-01'', kw_deboursement, ustr ''-100.00'']], None)"
    by (simp add: parse_cash_def cash_table_def py_first_def withdrawal_table_def empty_table_def
        tree_defs keyword_defs)
  from cash_table_classified [OF 1 2 3] 0 4 6 show ?thesis
    by (simp add: header_row_def 2 3)
qed

text \<open>
  Neither loop stops early, so what each prints is the concatenation of what its body
  prints for each table in turn.
\<close>

lemma cash_tables_lines: "cash_tables ts = (concat (map cash_lines ts), None)"
proof (induction ts)
  case Nil
  then show ?case by simp
next
  case (Cons t ts)
  obtain out where "cash_table t = Inr out"
    using cash_table_Inr [of t] ..
  with Cons show ?case
    by (simp add: cash_lines_def)
qed

lemma ibkr_tables_lines: "ibkr_tables ts = (concat (map ibkr_lines ts), None)"
proof (induction ts)
  case Nil
  then show ?case by simp
next
  case (Cons t ts)
  obtain out where out: "summarize_table t = Inr out"
    using summarize_table_Inr [of t] ..
  from ibkr_table_cases [of t] Cons show ?case
    by (auto simp: ibkr_lines_def out)
qed

text \<open>
  Claim C6. For a table without rows neither script prints anything for it and neither
  raises, and both loops go on with the remaining tables: the output for a list of tables
  that holds it consists of the lines of every table before it followed by the lines of
  every table after it.
\<close>

theorem zero_row_table_skipped:
  assumes "find_all [ustr ''tr''] t = []"
  shows "cash_table t = Inr [] \<and>
         summarize_table t = Inr [] \<and>
         (ibkr_table t = None \<or> ibkr_table t = Some (Inr [])) \<and>
         cash_tables (before @ t # after) =
           (fst (cash_tables before) @ fst (cash_tables after), None) \<and>
         ibkr_tables (before @ t # after) =
           (fst (ibkr_tables before) @ fst (ibkr_tables after), None) \<and>
         cash_tables (before @ t # after) =
           (concat (map cash_lines before) @ concat (map cash_lines after), None) \<and>
         ibkr_tables (before @ t # after) =
           (concat (map ibkr_lines before) @ concat (map ibkr_lines after), None)"
proof -
  from assms have c: "cash_table t = Inr []" and s: "summarize_table t = Inr []"
    by (simp_all add: cash_table_def summarize_table_def Let_def)
  from s have i: "ibkr_table t = None \<or> ibkr_table t = Some (Inr [])"
    using ibkr_table_cases [of t] by simp
  from c have cl: "cash_lines t = []"
    by (simp add: cash_lines_def)
  from i have il: "ibkr_lines t = []"
    by (auto simp: ibkr_lines_def)
  have 1: "cash_tables (before @ t # after) =
      (concat (map cash_lines before) @ concat (map cash_lines after), None)"
    by (simp add: cash_tables_lines cl)
  have 2: "ibkr_tables (before @ t # after) =
      (concat (map ibkr_lines before) @ concat (map ibkr_lines after), None)"
    by (simp add: ibkr_tables_lines il)
  have 3: "cash_tables (before @ t # after) =
      (fst (cash_tables before) @ fst (cash_tables after), None)"
    unfolding 1 by (simp add: cash_tables_lines)
  have 4: "ibkr_tables (before @ t # after) =
      (fst (ibkr_tables before) @ fst (ibkr_tables after), None)"
    unfolding 2 by (simp add: ibkr_tables_lines)
  from c s i 1 2 3 4 show ?thesis by simp
qed

text \<open>
  Witness for C6: a table without rows that both scripts take up, between two copies of
  the withdrawal table. Both scripts print the lines of the withdrawal table twice, once
  for the copy after the table without rows.
\<close>

theorem zero_row_table_skipped_witness:
  "find_all [ustr ''tr''] rowless_table = [] \<and>
   occurs_in kw_deboursement (get_text rowless_table) \<and>
   cash_table rowless_table = Inr [] \<and>
   ibkr_table rowless_table = Some (Inr []) \<and>
   cash_tables [withdrawal_table, rowless_table, withdrawal_table] =
     ([Candidate_cash_table, Cells [ustr ''2025-03-01'', kw_deboursement, ustr ''-100.00''],
       Candidate_cash_table, Cells [ustr ''2025-03-01'', kw_deboursement, ustr ''-100.00'']],
      None) \<and>
   ibkr_tables [withdrawal_table, rowless_table, withdrawal_table] =
     ([Table_headers [kw_date, kw_description, kw_montant],
       Cells [ustr ''2025-03-01'', kw_deboursement, ustr ''-100.00''],
       Table_headers [kw_date, kw_description, kw_montant],
       Cells [ustr ''2025-03-01'', kw_deboursement, ustr ''-100.00'']],
      None)"
proof -
  have 1: "find_all [ustr ''tr''] rowless_table = []"
    by (simp add: rowless_table_def tree_defs keyword_defs)
  have 2: "occurs_in kw_deboursement (get_text rowless_table)"
    by (simp add: rowless_table_def tree_defs keyword_defs)
  have 3: "ibkr_table rowless_table \<noteq> None"
    by (simp add: ibkr_table_def rowless_table_def tree_defs keyword_defs)
  have 4: "cash_lines withdrawal_table =
      [Candidate_cash_table, Cells [ustr ''2025-03-01'', kw_deboursement, ustr ''-100.00'']]"
    by (simp add: cash_lines_def cash_table_def py_first_def withdrawal_table_def
        tree_defs keyword_defs)
  have 5: "ibkr_lines withdrawal_table =
      [Table_headers [kw_date, kw_description, kw_montant],
       Cells [ustr ''2025-03-01'', kw_deboursement, ustr ''-100.00'']]"
    by (simp add: ibkr_lines_def ibkr_table_def summarize_table_def py_first_def
        withdrawal_table_def tree_defs keyword_defs)
  note skipped = zero_row_table_skipped [OF 1, of "[withdrawal_table]" "[withdrawal_table]"]
  from skipped have 6: "cash_table rowless_table = Inr []"
    by (rule conjunct1)
  from skipped 3 have 7: "ibkr_table rowless_table = Some (Inr [])"
    by blast
  from skipped have "cash_tables ([withdrawal_table] @ rowless_table # [withdrawal_table]) =
      (concat (map cash_lines [withdrawal_table]) @ concat (map cash_lines [withdrawal_table]),
       None)"
    by blast
  then have 8: "cash_tables [withdrawal_table, rowless_table, withdrawal_table] =
     ([Candidate_cash_table, Cells [ustr ''2025-03-01'', kw_deboursement, ustr ''-100.00''],
       Candidate_cash_table, Cells [ustr ''2025-03-01'', kw_deboursement, ustr ''-100.00'']],
      None)"
    by (simp only: 4 list.map concat.simps append.simps)
  from skipped have "ibkr_tables ([withdrawal_table] @ rowless_table # [withdrawal_table]) =
      (concat (map ibkr_lines [withdrawal_table]) @ concat (map ibkr_lines [withdrawal_table]),
       None)"
    by blast
  then have 9: "ibkr_tables [withdrawal_table, rowless_table, withdrawal_table] =
     ([Table_headers [kw_date, kw_description, kw_montant],
       Cells [ustr ''2025-03-01'', kw_deboursement, ustr ''-100.00''],
       Table_headers [kw_date, kw_description, kw_montant],
       Cells [ustr ''2025-03-01'', kw_deboursement, ustr ''-100.00'']],
      None)"
    by (simp only: 5 list.map concat.simps append.simps)
  from 1 2 6 7 8 9 show ?thesis
    by (intro conjI)
qed

text \<open>
  Counterexample to C2 as stated: a table whose header row reads \<open>x\<close> and whose second row
  holds \<open>Date\<close> and \<open>Montant\<close> is summarized by \<^verbatim>\<open>parse_ibkr.py\<close>, although its text lacks
  the symbol keyword and its header row holds neither keyword.
\<close>

theorem ibkr_table_body_keywords_classified:
  "ibkr_table late_keywords_table =
     Some (Inr [Table_headers [ustr ''x''], Cells [ustr ''Date'', ustr ''Montant'']]) \<and>
   \<not> transaction_rule_as_specified late_keywords_table"
  by (simp add: late_keywords_table_def ibkr_table_def summarize_table_def py_first_def
      transaction_rule_as_specified_def header_row_def tree_defs keyword_defs)

text \<open>
  Claim C2, as amended. \<^verbatim>\<open>parse_ibkr.py\<close> treats a table as a transaction table, and calls
  \<^verbatim>\<open>summarize_table\<close> on it, if and only if the table's full text contains the symbol
  keyword together with one of the buy, sell, deposits and date keywords, or the full text
  contains both the date and the amount keyword. The header row plays no part.
\<close>

theorem ibkr_table_full_text_rule:
  "(ibkr_table t \<noteq> None) =
     (sublist kw_symbole (get_text t) \<and>
        (sublist kw_achat (get_text t) \<or> sublist kw_vente (get_text t) \<or>
         sublist kw_depots (get_text t) \<or> sublist kw_date (get_text t))
      \<or> sublist kw_date (get_text t) \<and> sublist kw_montant (get_text t)) \<and>
   (ibkr_table t = None \<or> ibkr_table t = Some (summarize_table t))"
  by (simp add: ibkr_table_def Let_def occurs_in_sublist)

text \<open>Witness for C2: the table of the counterexample, classified through its full text.\<close>

theorem ibkr_table_full_text_rule_witness:
  "ibkr_table late_keywords_table \<noteq> None \<and>
   sublist kw_date (get_text late_keywords_table) \<and>
   sublist kw_montant (get_text late_keywords_table) \<and>
   \<not> sublist kw_symbole (get_text late_keywords_table) \<and>
   ibkr_table late_keywords_table = Some (summarize_table late_keywords_table)"
proof -
  have "ibkr_table late_keywords_table \<noteq> None"
    "sublist kw_date (get_text late_keywords_table)"
    "sublist kw_montant (get_text late_keywords_table)"
    "\<not> sublist kw_symbole (get_text late_keywords_table)"
    by (simp_all add: late_keywords_table_def ibkr_table_def occurs_in_sublist [symmetric]
        tree_defs keyword_defs)
  with ibkr_table_full_text_rule [of late_keywords_table] show ?thesis by simp
qed

subsection \<open>Running the locator twice\<close>

text \<open>
  The paths listed by \<open>positions\<close> lead to the descendants, in the same order, so the
  references \<^verbatim>\<open>find_all\<close> returns denote the elements that \<open>find_all\<close> lists.
\<close>

lemma element_at_append:
  "element_at n (p @ q) = (case element_at n p of None \<Rightarrow> None | Some d \<Rightarrow> element_at d q)"
  by (induction n p rule: element_at.induct) simp_all

lemma positions_from_descendants:
  assumes "\<And>c. c \<in> set cs \<Longrightarrow> map (element_at c) (positions c) = map Some (descendants c)"
    and "length pre = i"
  shows "map (element_at (Tag name (pre @ cs))) (positions_from i cs) =
           map Some (concat (map (\<lambda>c. c # descendants c) cs))"
  using assms
proof (induction cs arbitrary: pre i)
  case Nil
  then show ?case by simp
next
  case (Cons c cs)
  have here: "(pre @ c # cs) ! i = c" "i < length (pre @ c # cs)"
    using Cons.prems(2) by (simp_all add: nth_append)
  have "map (element_at (Tag name ((pre @ [c]) @ cs))) (positions_from (Suc i) cs) =
          map Some (concat (map (\<lambda>c. c # descendants c) cs))"
    using Cons.prems by (intro Cons.IH) simp_all
  moreover have "map (element_at c) (positions c) = map Some (descendants c)"
    using Cons.prems(1) by simp
  ultimately show ?case
    using here by (simp add: comp_def)
qed

lemma positions_descendants: "map (element_at n) (positions n) = map Some (descendants n)"
proof (induction n)
  case (Tag name children)
  then show ?case
    using positions_from_descendants [of children "[]" 0 name] by simp
qed simp_all


lemma find_all_refs:
  assumes "element_at doc e = Some n"
  shows "\<exists>ps. bs_find_all names e doc = (ps, doc) \<and>
           map (element_at doc) ps = map Some (find_all names n)"
proof -
  let ?ps = "filter (named_at names n) (positions n)"
  have "map (element_at n) ?ps = filter (\<lambda>d. case d of None \<Rightarrow> False | Some d \<Rightarrow> named names d)
          (map (element_at n) (positions n))"
    by (simp add: filter_map comp_def named_at_def [abs_def])
  also have "\<dots> = map Some (filter (named names) (descendants n))"
    by (simp add: positions_descendants filter_map comp_def)
  finally have "map (element_at n) ?ps = map Some (find_all names n)"
    by (simp add: find_all_def)
  moreover have "map (element_at doc) (map ((@) e) ?ps) = map (element_at n) ?ps"
    by (simp add: element_at_append assms comp_def)
  ultimately show ?thesis
    by (simp add: bs_find_all_def assms)
qed

lemma texts_of_refs:
  "map (element_at doc) cs = map Some ns \<Longrightarrow> texts_of cs doc = (map get_text_strip ns, doc)"
proof (induction cs arbitrary: ns)
  case Nil
  then show ?case by simp
next
  case (Cons c cs)
  then obtain m ms where ns: "ns = m # ms" "element_at doc c = Some m"
    "map (element_at doc) cs = map Some ms"
    by (cases ns) auto
  with Cons.IH [of ms] show ?case
    by (simp add: bs_get_text_strip_def)
qed

text \<open>
  Each part of the script, run on references into the tree, prints what the corresponding
  function of the tree computes, and hands on the tree it was given.
\<close>

lemma print_rows_refs:
  "map (element_at (document st)) rs = map Some ns \<Longrightarrow>
     document (print_rows rs st) = document st \<and>
     stdout (print_rows rs st) = stdout st @ map (\<lambda>n. Cells (data_cells n)) ns"
proof (induction rs arbitrary: ns st)
  case Nil
  then show ?case by simp
next
  case (Cons r rs)
  then obtain m ms where ns: "ns = m # ms" "element_at (document st) r = Some m"
    "map (element_at (document st)) rs = map Some ms"
    by (cases ns) auto
  obtain tds where tds: "bs_find_all [ustr ''td''] r (document st) = (tds, document st)"
    "map (element_at (document st)) tds = map Some (find_all [ustr ''td''] m)"
    using find_all_refs [OF ns(2)] by blast
  have cells: "texts_of tds (document st) = (data_cells m, document st)"
    using texts_of_refs [OF tds(2)] by (simp add: data_cells_def)
  define st1 where "st1 = st\<lparr>document := document st, var_r := r, var_cells := data_cells m,
    stdout := stdout st @ [Cells (data_cells m)]\<rparr>"
  have run: "print_rows (r # rs) st = print_rows rs st1"
    by (simp add: tds(1) cells st1_def)
  have "map (element_at (document st1)) rs = map Some ms"
    using ns(3) by (simp add: st1_def)
  from Cons.IH [OF this] show ?case
    unfolding run by (simp add: st1_def ns(1))
qed

lemma cash_body_refs:
  assumes "element_at (document st) t = Some n"
  shows "\<exists>st1 out. cash_body t st = (st1, None) \<and> cash_table n = Inr out \<and>
           document st1 = document st \<and> stdout st1 = stdout st @ out"
proof -
  obtain rows where rows: "bs_find_all [ustr ''tr''] t (document st) = (rows, document st)"
    "map (element_at (document st)) rows = map Some (find_all [ustr ''tr''] n)"
    using find_all_refs [OF assms] by blast
  have gt: "bs_get_text t (document st) = (get_text n, document st)"
    by (simp add: bs_get_text_def assms)
  show ?thesis
  proof (cases "occurs_in kw_transfert (get_text n) \<or> occurs_in kw_deboursement (get_text n)")
    case False
    then show ?thesis
      by (simp add: cash_body_def cash_table_def gt)
  next
    case True
    show ?thesis
    proof (cases rows)
      case Nil
      with rows(2) have "find_all [ustr ''tr''] n = []" by simp
      with True Nil show ?thesis
        by (simp add: cash_body_def cash_table_def gt rows(1))
    next
      case (Cons row0 rest)
      with rows(2) obtain m ms where ms: "find_all [ustr ''tr''] n = m # ms"
        "element_at (document st) row0 = Some m" "map (element_at (document st)) rest = map Some ms"
        by (cases "find_all [ustr ''tr''] n") auto
      obtain ths where ths: "bs_find_all [ustr ''th'', ustr ''td''] row0 (document st) = (ths, document st)"
        "map (element_at (document st)) ths = map Some (find_all [ustr ''th'', ustr ''td''] m)"
        using find_all_refs [OF ms(2)] by blast
      have headers: "texts_of ths (document st) = (header_cells m, document st)"
        using texts_of_refs [OF ths(2)] by (simp add: header_cells_def)
      show ?thesis
      proof (cases "kw_date \<in> set (header_cells m) \<and> kw_description \<in> set (header_cells m) \<and>
          kw_montant \<in> set (header_cells m)")
        case False
        with True Cons ms(1) show ?thesis
          by (auto simp: cash_body_def cash_table_def gt rows(1) py_first_def ths(1) headers)
      next
        case h: True
        define st3 where "st3 = st\<lparr>document := document st, var_t := t, var_text := get_text n,
          document := document st, var_rows := rows, document := document st,
          var_headers := header_cells m, stdout := stdout st @ [Candidate_cash_table]\<rparr>"
        have "map (element_at (document st3)) rest = map Some ms"
          using ms(3) by (simp add: st3_def)
        from print_rows_refs [OF this]
        have p: "document (print_rows rest st3) = document st"
          "stdout (print_rows rest st3) =
             stdout st @ Candidate_cash_table # map (\<lambda>n. Cells (data_cells n)) ms"
          by (simp_all add: st3_def)
        have "cash_body t st = (print_rows rest st3, None)"
          using True Cons h
          by (simp add: cash_body_def gt rows(1) py_first_def ths(1) headers st3_def)
        moreover have "cash_table n =
            Inr (Candidate_cash_table # map (\<lambda>n. Cells (data_cells n)) ms)"
          using True h by (simp add: cash_table_def ms(1) py_first_def)
        ultimately show ?thesis
          using p by simp
      qed
    qed
  qed
qed

lemma cash_loop_refs:
  "map (element_at (document st)) ts = map Some ns \<Longrightarrow>
     snd (cash_loop ts st) = None \<and>
     document (fst (cash_loop ts st)) = document st \<and>
     stdout (fst (cash_loop ts st)) = stdout st @ fst (cash_tables ns)"
proof (induction ts arbitrary: ns st)
  case Nil
  then show ?case by simp
next
  case (Cons t ts)
  then obtain m ms where ns: "ns = m # ms" "element_at (document st) t = Some m"
    "map (element_at (document st)) ts = map Some ms"
    by (cases ns) auto
  obtain st1 out where b: "cash_body t st = (st1, None)" "cash_table m = Inr out"
    "document st1 = document st" "stdout st1 = stdout st @ out"
    using cash_body_refs [OF ns(2)] by blast
  have "map (element_at (document st1)) ts = map Some ms"
    using ns(3) b(3) by simp
  from Cons.IH [OF this] show ?case
    by (simp add: b ns(1) split_beta)
qed

text \<open>
  Claim C9. Started in any process state, \<^verbatim>\<open>parse_cash.py\<close> raises nothing, leaves the
  document as it found it, and appends to the output the lines determined by the document
  alone; run again in the state the first run left, with the variables the first run
  assigned, it appends the same lines once more.
\<close>

theorem parse_cash_script_repeatable:
  "snd (parse_cash_script st) = None \<and>
   document (fst (parse_cash_script st)) = document st \<and>
   stdout (fst (parse_cash_script st)) = stdout st @ fst (parse_cash (document st)) \<and>
   snd (parse_cash_script (fst (parse_cash_script st))) = None \<and>
   document (fst (parse_cash_script (fst (parse_cash_script st)))) = document st \<and>
   stdout (fst (parse_cash_script (fst (parse_cash_script st)))) =
     stdout st @ fst (parse_cash (document st)) @ fst (parse_cash (document st))"
proof -
  have once: "snd (parse_cash_script s) = None \<and>
      document (fst (parse_cash_script s)) = document s \<and>
      stdout (fst (parse_cash_script s)) = stdout s @ fst (parse_cash (document s))" for s
  proof -
    obtain tables where t: "bs_find_all [ustr ''table''] [] (document s) = (tables, document s)"
      "map (element_at (document s)) tables = map Some (find_all [ustr ''table''] (document s))"
      using find_all_refs [of "document s" "[]" "document s"] by auto
    define s1 where "s1 = s\<lparr>document := document s, var_tables := tables\<rparr>"
    have "map (element_at (document s1)) tables = map Some (find_all [ustr ''table''] (document s))"
      using t(2) by (simp add: s1_def)
    from cash_loop_refs [OF this] show ?thesis
      by (simp add: parse_cash_script_def t(1) parse_cash_def s1_def)
  qed
  from once [of st] once [of "fst (parse_cash_script st)"] show ?thesis
    by simp
qed


text \<open>
  Witness for C9: a document of two tables, in a process whose variables hold stale values.
  Both runs print the banner and the row of the withdrawal table.
\<close>

theorem parse_cash_script_repeatable_witness:
  "document (fst (parse_cash_script stale_process)) = Tag [] [empty_table, withdrawal_table] \<and>
   stdout (fst (parse_cash_script stale_process)) =
     [Candidate_cash_table, Cells [ustr ''2025-03-01'', kw_deboursement, ustr ''-100.00'']] \<and>
   snd (parse_cash_script (fst (parse_cash_script stale_process))) = None \<and>
   document (fst (parse_cash_script (fst (parse_cash_script stale_process)))) =
     Tag [] [empty_table, withdrawal_table] \<and>
   stdout (fst (parse_cash_script (fst (parse_cash_script stale_process)))) =
     [Candidate_cash_table, Cells [ustr ''2025-03-01'', kw_deboursement, ustr ''-100.00''],
      Candidate_cash_table, Cells [ustr ''2025-03-01'', kw_deboursement, ustr ''-100.00'']]"
proof -
  have 1: "parse_cash (Tag [] [empty_table, withdrawal_table]) =
     ([Candidate_cash_table, Cells [ustr ''2025-03-01'', kw_deboursement, ustr ''-100.00'']], None)"
    by (simp add: parse_cash_def cash_table_def py_first_def withdrawal_table_def empty_table_def
        tree_defs keyword_defs)
  have 2: "document stale_process = Tag [] [empty_table, withdrawal_table]"
    "stdout stale_process = []"
    by (simp_all add: stale_process_def)
  from parse_cash_script_repeatable [of stale_process] show ?thesis
    by (simp add: 1 2)
qed

section \<open>Properties of the valuation proxy\<close>

subsection \<open>Trimming, splitting and the ticker loop\<close>

lemmas proxy_defs =
  do_GET_def handle_pe_def handle_search_def respond_def qs_first_def py_first_def
  pe_tickers_def comma_def strip_def py_isspace_def entry_of_info_def number_or_none_def
  dict_get_def null_entry_def flaky_upstream_def fresh_session_def
  pe_request_def search_request_def AList.update.simps ustr_def

lemma strip_blank_iff: "strip v = [] \<longleftrightarrow> (\<forall>c\<in>set v. py_isspace c)"
proof
  assume "strip v = []"
  then have "\<forall>c\<in>set (dropWhile py_isspace v). py_isspace c"
    by (simp add: strip_def dropWhile_eq_Nil_conv)
  then have "dropWhile py_isspace v = []"
    using hd_dropWhile [of py_isspace v] by (cases "dropWhile py_isspace v") auto
  then show "\<forall>c\<in>set v. py_isspace c"
    by (simp add: dropWhile_eq_Nil_conv)
next
  assume "\<forall>c\<in>set v. py_isspace c"
  then show "strip v = []"
    by (auto simp: strip_def dest: set_dropWhileD)
qed

lemma split_segment_chars: "w \<in> set (split sep s) \<Longrightarrow> set w \<subseteq> set s - {sep}"
proof (induction s arbitrary: w)
  case Nil
  then show ?case by simp
next
  case (Cons c s)
  show ?case
  proof (cases "c = sep")
    case True
    with Cons show ?thesis by auto
  next
    case False
    obtain v vs where vs: "split sep s = v # vs"
      by (cases "split sep s") (cases s; simp split: if_splits list.splits)+
    with Cons.prems False have "w = c # v \<or> w \<in> set vs" by auto
    moreover have "set v \<subseteq> set s - {sep}"
      by (rule Cons.IH) (simp add: vs)
    moreover have "set u \<subseteq> set s - {sep}" if "u \<in> set vs" for u
      by (rule Cons.IH) (simp add: vs that)
    ultimately show ?thesis using False by auto
  qed
qed

lemma pe_tickers_as_specified: "pe_tickers raw = tickers_as_specified raw"
  by (simp add: pe_tickers_def tickers_as_specified_def filter_map o_def)

lemma pe_tickers_blank:
  assumes "\<forall>c\<in>set raw. c = comma \<or> py_isspace c"
  shows "pe_tickers raw = []"
proof -
  have "strip w = []" if "w \<in> set (split comma raw)" for w
    using split_segment_chars [OF that] assms by (auto simp: strip_blank_iff)
  then show ?thesis
    by (simp add: pe_tickers_def filter_empty_conv)
qed

lemma qs_first_missing: "qs k = None \<Longrightarrow> qs_first qs k = Inr []"
  by (simp add: qs_first_def py_first_def)

lemma qs_first_present: "qs k = Some (v # vs) \<Longrightarrow> qs_first qs k = Inr v"
  by (simp add: qs_first_def py_first_def)

lemma pe_loop_append:
  "pe_loop up (xs @ ys) result s =
     (let (result1, s1) = pe_loop up xs result s in pe_loop up ys result1 s1)"
  by (induction xs arbitrary: result s)
     (simp_all add: split_beta Let_def split: sum.splits)

lemma pe_loop_keys:
  "fst ` set (fst (pe_loop up ts result s)) = fst ` set result \<union> set ts"
  by (induction ts arbitrary: result s)
     (auto simp: split_beta Let_def dom_update split: sum.splits)

lemma pe_loop_distinct:
  "distinct (map fst result) \<Longrightarrow> distinct (map fst (fst (pe_loop up ts result s)))"
  by (induction ts arbitrary: result s)
     (simp_all add: split_beta Let_def distinct_update split: sum.splits)

lemma pe_loop_untouched:
  "t \<notin> set ts \<Longrightarrow> map_of (fst (pe_loop up ts result s)) t = map_of result t"
  by (induction ts arbitrary: result s)
     (simp_all add: split_beta Let_def update_conv' split: sum.splits)

lemma pe_loop_stderr_grows:
  "l \<in> set (stderr s) \<Longrightarrow> l \<in> set (stderr (snd (pe_loop up ts result s)))"
  by (induction ts arbitrary: result s)
     (simp_all add: split_beta Let_def split: sum.splits)


lemma handle_pe_some:
  assumes "qs_first qs (ustr ''tickers'') = Inr raw" and "pe_tickers raw \<noteq> []"
  shows "do_GET up \<lparr>req_path = ustr ''/pe'', req_query = qs\<rparr> s =
           (Inr \<lparr>status = 200, body = Pe_body (fst (pe_loop up (pe_tickers raw) [] s))\<rparr>,
            snd (pe_loop up (pe_tickers raw) [] s))"
  using assms by (simp add: do_GET_def handle_pe_def respond_def Let_def split_beta)

lemma handle_pe_none:
  assumes "qs_first qs (ustr ''tickers'') = Inr raw" and "pe_tickers raw = []"
  shows "do_GET up \<lparr>req_path = ustr ''/pe'', req_query = qs\<rparr> s =
           (Inr \<lparr>status = 400, body = Error_body (ustr ''missing tickers param'')\<rparr>, s)"
  using assms by (simp add: do_GET_def handle_pe_def respond_def Let_def)

subsection \<open>\<^verbatim>\<open>GET /search\<close>\<close>

text \<open>
  Claim C8. When the parameter \<open>q\<close> is missing from the parsed query (as it is when the
  request gives it no value or an empty one) or its first value consists of whitespace
  only, \<^verbatim>\<open>GET /search\<close> answers 400 with the error body and leaves the session as it was:
  no upstream call is made.
\<close>

theorem search_blank_query_rejected:
  assumes "qs (ustr ''q'') = None \<or>
           (\<exists>v vs. qs (ustr ''q'') = Some (v # vs) \<and> (\<forall>c\<in>set v. py_isspace c))"
  shows "do_GET up \<lparr>req_path = ustr ''/search'', req_query = qs\<rparr> s =
           (Inr \<lparr>status = 400, body = Error_body (ustr ''missing q param'')\<rparr>, s) \<and>
         calls (snd (do_GET up \<lparr>req_path = ustr ''/search'', req_query = qs\<rparr> s)) = calls s"
proof -
  have "\<exists>v. qs_first qs (ustr ''q'') = Inr v \<and> strip v = []"
    using assms
  proof
    assume "qs (ustr ''q'') = None"
    then have "qs_first qs (ustr ''q'') = Inr []"
      by (rule qs_first_missing)
    moreover have "strip [] = []"
      by (simp add: strip_def)
    ultimately show ?thesis by blast
  next
    assume "\<exists>v vs. qs (ustr ''q'') = Some (v # vs) \<and> (\<forall>c\<in>set v. py_isspace c)"
    then obtain v vs where "qs (ustr ''q'') = Some (v # vs)" "\<forall>c\<in>set v. py_isspace c"
      by blast
    then have "qs_first qs (ustr ''q'') = Inr v" "strip v = []"
      by (simp_all add: qs_first_present strip_blank_iff)
    then show ?thesis by blast
  qed
  then obtain v where "qs_first qs (ustr ''q'') = Inr v" "strip v = []"
    by blast
  then have "do_GET up \<lparr>req_path = ustr ''/search'', req_query = qs\<rparr> s =
           (Inr \<lparr>status = 400, body = Error_body (ustr ''missing q param'')\<rparr>, s)"
    by (simp add: do_GET_def handle_search_def respond_def ustr_def)
  then show ?thesis by simp
qed


text \<open>Witness for C8: a request without \<open>q\<close>, and one whose \<open>q\<close> is a space, a tab and a no-break space.\<close>

theorem search_blank_query_rejected_witness:
  "do_GET flaky_upstream \<lparr>req_path = ustr ''/search'', req_query = Map.empty\<rparr> fresh_session =
     (Inr \<lparr>status = 400, body = Error_body (ustr ''missing q param'')\<rparr>, fresh_session) \<and>
   do_GET flaky_upstream (search_request [32, 9, 160]) fresh_session =
     (Inr \<lparr>status = 400, body = Error_body (ustr ''missing q param'')\<rparr>, fresh_session) \<and>
   calls fresh_session = []"
proof -
  have 1: "Map.empty (ustr ''q'') = None \<or>
        (\<exists>v vs. Map.empty (ustr ''q'') = Some (v # vs) \<and> (\<forall>c\<in>set v. py_isspace c))"
    by simp
  have 2: "req_query (search_request [32, 9, 160]) (ustr ''q'') = None \<or>
        (\<exists>v vs. req_query (search_request [32, 9, 160]) (ustr ''q'') = Some (v # vs) \<and>
           (\<forall>c\<in>set v. py_isspace c))"
    by (simp add: search_request_def py_isspace_def)
  have 3: "search_request [32, 9, 160] =
     \<lparr>req_path = ustr ''/search'', req_query = req_query (search_request [32, 9, 160])\<rparr>"
    by (simp add: search_request_def)
  from search_blank_query_rejected [where qs = Map.empty and up = flaky_upstream and s = fresh_session, OF 1]
    search_blank_query_rejected [where qs = "req_query (search_request [32, 9, 160])" and up = flaky_upstream
      and s = fresh_session, OF 2]
  show ?thesis
    by (simp add: 3 [symmetric] fresh_session_def)
qed

subsection \<open>\<^verbatim>\<open>GET /pe\<close>\<close>

text \<open>
  Counterexample to C7 as stated: for \<^verbatim>\<open>tickers=A,A\<close> the first fetch of \<open>A\<close> raises and is
  logged, the second one answers, and the entry of \<open>A\<close> in the response carries the second
  answer instead of four nulls.
\<close>

theorem pe_later_fetch_overwrites_failure:
  "do_GET flaky_upstream (pe_request (ustr ''A,A'')) fresh_session =
     (Inr \<lparr>status = 200,
           body = Pe_body [(ustr ''A'',
             \<lparr>trailingPE = PInt 10, forwardPE = PNone, trailingEps = PNone, forwardEps = PNone\<rparr>)]\<rparr>,
      \<lparr>world = 2, calls = [Ticker_info (ustr ''A''), Ticker_info (ustr ''A'')],
       stderr = [Fetch_error (ustr ''A'') (Upstream_error (ustr ''timed out''))]\<rparr>)"
  by (simp add: proxy_defs)

text \<open>
  Claim C7, as amended. If the fetch made for an occurrence of a ticker in the list raises,
  the response still has status 200 and holds an entry for that ticker, and the failure
  is written to the error stream; the four fields of the entry are all null when the
  ticker does not occur again later in the list, in particular when it is listed once.
\<close>

theorem pe_failed_fetch_swallowed:
  assumes "qs_first qs (ustr ''tickers'') = Inr raw"
    and "pe_tickers raw = before @ t # after"
    and "fst (ticker_info up (world (snd (pe_loop up before [] s))) t) = Inl e"
  shows "\<exists>result s'.
    do_GET up \<lparr>req_path = ustr ''/pe'', req_query = qs\<rparr> s =
      (Inr \<lparr>status = 200, body = Pe_body result\<rparr>, s') \<and>
    t \<in> fst ` set result \<and>
    (t \<notin> set after \<longrightarrow> map_of result t = Some null_entry) \<and>
    Fetch_error t e \<in> set (stderr s')"
proof -
  let ?r = "fst (pe_loop up (pe_tickers raw) [] s)"
  let ?s = "snd (pe_loop up (pe_tickers raw) [] s)"
  from assms(2) have ne: "pe_tickers raw \<noteq> []" by simp
  have key: "t \<in> fst ` set ?r"
    using pe_loop_keys [of up "pe_tickers raw" "[]" s] assms(2) by simp
  obtain r1 s1 where 1: "pe_loop up before [] s = (r1, s1)"
    by (cases "pe_loop up before [] s")
  obtain w where 2: "ticker_info up (world s1) t = (Inl e, w)"
    using assms(3) 1 by (cases "ticker_info up (world s1) t") simp
  define r2 where "r2 = AList.update t null_entry r1"
  define s2 where "s2 = s1\<lparr>world := w, calls := calls s1 @ [Ticker_info t],
    stderr := stderr s1 @ [Fetch_error t e]\<rparr>"
  have run: "pe_loop up (pe_tickers raw) [] s = pe_loop up after r2 s2"
    by (simp add: assms(2) pe_loop_append 1 2 r2_def s2_def)
  have "Fetch_error t e \<in> set (stderr s2)"
    by (simp add: s2_def)
  then have logged: "Fetch_error t e \<in> set (stderr ?s)"
    unfolding run by (rule pe_loop_stderr_grows)
  have null: "map_of ?r t = Some null_entry" if "t \<notin> set after"
  proof -
    from run that have "map_of ?r t = map_of r2 t"
      by (simp add: pe_loop_untouched)
    then show ?thesis
      by (simp add: r2_def update_conv')
  qed
  from key null logged show ?thesis
    using handle_pe_some [OF assms(1) ne] by blast
qed

text \<open>Witness for C7: \<^verbatim>\<open>tickers=BAD\<close>, the one fetch timing out.\<close>

theorem pe_failed_fetch_swallowed_witness:
  "pe_tickers (ustr ''BAD'') = [ustr ''BAD''] \<and>
   fst (ticker_info flaky_upstream (world fresh_session) (ustr ''BAD'')) =
     Inl (Upstream_error (ustr ''timed out'')) \<and>
   (\<exists>result s'.
      do_GET flaky_upstream (pe_request (ustr ''BAD'')) fresh_session =
        (Inr \<lparr>status = 200, body = Pe_body result\<rparr>, s') \<and>
      map_of result (ustr ''BAD'') = Some null_entry)"
proof -
  have 1: "qs_first (req_query (pe_request (ustr ''BAD''))) (ustr ''tickers'') = Inr (ustr ''BAD'')"
    by (simp add: proxy_defs)
  have 2: "pe_tickers (ustr ''BAD'') = [] @ ustr ''BAD'' # []"
    by (simp add: proxy_defs)
  have 3: "fst (ticker_info flaky_upstream
             (world (snd (pe_loop flaky_upstream [] [] fresh_session))) (ustr ''BAD'')) =
           Inl (Upstream_error (ustr ''timed out''))"
    by (simp add: proxy_defs)
  have 4: "pe_request (ustr ''BAD'') =
     \<lparr>req_path = ustr ''/pe'', req_query = req_query (pe_request (ustr ''BAD''))\<rparr>"
    by (simp add: pe_request_def)
  from pe_failed_fetch_swallowed [where s = fresh_session and up = flaky_upstream, OF 1 2 3]
  have "\<exists>result s'.
      do_GET flaky_upstream (pe_request (ustr ''BAD'')) fresh_session =
        (Inr \<lparr>status = 200, body = Pe_body result\<rparr>, s') \<and>
      map_of result (ustr ''BAD'') = Some null_entry"
    unfolding 4 [symmetric] by auto
  with 2 3 show ?thesis by simp
qed

text \<open>
  Counterexample to C10 as stated: \<^verbatim>\<open>tickers=MC.PA, MC.PA\<close> has two surviving segments, and
  the response holds one entry.
\<close>

theorem pe_duplicate_tickers_share_entry:
  "pe_tickers (ustr ''MC.PA, MC.PA'') = [ustr ''MC.PA'', ustr ''MC.PA''] \<and>
   fst (do_GET flaky_upstream (pe_request (ustr ''MC.PA, MC.PA'')) warm_session) =
     Inr \<lparr>status = 200,
          body = Pe_body [(ustr ''MC.PA'',
            \<lparr>trailingPE = PInt 10, forwardPE = PNone, trailingEps = PNone, forwardEps = PNone\<rparr>)]\<rparr>"
  by (simp add: proxy_defs warm_session_def)

text \<open>
  Claim C10, as amended. The ticker list of \<^verbatim>\<open>GET /pe\<close> is the raw parameter split on
  commas, each segment trimmed, the segments empty after trimming dropped. The raw
  parameter is empty when \<open>tickers\<close> is missing, and the list is empty when the raw
  parameter holds commas and whitespace only. With an empty list the answer is 400 with
  the error body and no upstream call; otherwise it is 200 with exactly one entry for
  each distinct surviving segment and no other entry.
\<close>

theorem pe_ticker_list_and_entries:
  assumes "qs_first qs (ustr ''tickers'') = Inr raw"
  shows "pe_tickers raw = tickers_as_specified raw \<and>
    (qs (ustr ''tickers'') = None \<longrightarrow> raw = []) \<and>
    ((\<forall>c\<in>set raw. c = comma \<or> py_isspace c) \<longrightarrow> pe_tickers raw = []) \<and>
    (pe_tickers raw = [] \<longrightarrow>
       do_GET up \<lparr>req_path = ustr ''/pe'', req_query = qs\<rparr> s =
         (Inr \<lparr>status = 400, body = Error_body (ustr ''missing tickers param'')\<rparr>, s)) \<and>
    (pe_tickers raw \<noteq> [] \<longrightarrow>
       (\<exists>result s'.
          do_GET up \<lparr>req_path = ustr ''/pe'', req_query = qs\<rparr> s =
            (Inr \<lparr>status = 200, body = Pe_body result\<rparr>, s') \<and>
          distinct (map fst result) \<and> set (map fst result) = set (pe_tickers raw)))"
proof -
  have "raw = []" if "qs (ustr ''tickers'') = None"
    using assms qs_first_missing [of qs "ustr ''tickers''"] that by simp
  moreover have "\<exists>result s'.
          do_GET up \<lparr>req_path = ustr ''/pe'', req_query = qs\<rparr> s =
            (Inr \<lparr>status = 200, body = Pe_body result\<rparr>, s') \<and>
          distinct (map fst result) \<and> set (map fst result) = set (pe_tickers raw)"
    if "pe_tickers raw \<noteq> []"
  proof -
    let ?r = "fst (pe_loop up (pe_tickers raw) [] s)"
    have "distinct (map fst ?r)"
      by (rule pe_loop_distinct) simp
    moreover have "set (map fst ?r) = set (pe_tickers raw)"
      using pe_loop_keys [of up "pe_tickers raw" "[]" s] by simp
    ultimately show ?thesis
      using handle_pe_some [OF assms that] by blast
  qed
  ultimately show ?thesis
    using pe_tickers_as_specified pe_tickers_blank handle_pe_none [OF assms]
    by blast
qed

text \<open>
  Witness for C10: a request without \<open>tickers\<close>, one with commas and spaces only, and one
  with the segments \<open>A\<close>, \<open>B\<close>, an empty one and \<open>A\<close> again.
\<close>

theorem pe_ticker_list_and_entries_witness:
  "do_GET flaky_upstream \<lparr>req_path = ustr ''/pe'', req_query = Map.empty\<rparr> fresh_session =
     (Inr \<lparr>status = 400, body = Error_body (ustr ''missing tickers param'')\<rparr>, fresh_session) \<and>
   do_GET flaky_upstream (pe_request (ustr '' , ,'')) fresh_session =
     (Inr \<lparr>status = 400, body = Error_body (ustr ''missing tickers param'')\<rparr>, fresh_session) \<and>
   tickers_as_specified (ustr ''A, B ,,A'') = [ustr ''A'', ustr ''B'', ustr ''A''] \<and>
   (\<exists>result s'.
      do_GET flaky_upstream (pe_request (ustr ''A, B ,,A'')) fresh_session =
        (Inr \<lparr>status = 200, body = Pe_body result\<rparr>, s') \<and>
      distinct (map fst result) \<and> set (map fst result) = {ustr ''A'', ustr ''B''})"
proof -
  have 1: "qs_first Map.empty (ustr ''tickers'') = Inr []"
    by (simp add: proxy_defs)
  have 2: "qs_first (req_query (pe_request (ustr '' , ,''))) (ustr ''tickers'') = Inr (ustr '' , ,'')"
    by (simp add: proxy_defs)
  have 3: "qs_first (req_query (pe_request (ustr ''A, B ,,A''))) (ustr ''tickers'') =
       Inr (ustr ''A, B ,,A'')"
    by (simp add: proxy_defs)
  have 4: "\<forall>c\<in>set (ustr '' , ,''). c = comma \<or> py_isspace c"
    by (simp add: proxy_defs)
  have 5: "pe_tickers (ustr ''A, B ,,A'') = [ustr ''A'', ustr ''B'', ustr ''A'']"
    by (simp add: proxy_defs)
  have 6: "pe_request raw = \<lparr>req_path = ustr ''/pe'', req_query = req_query (pe_request raw)\<rparr>"
    for raw
    by (simp add: pe_request_def)
  have 7: "pe_tickers [] = []"
    by (simp add: proxy_defs)
  from pe_ticker_list_and_entries [where qs = Map.empty and up = flaky_upstream and s = fresh_session, OF 1] 7
  have a: "do_GET flaky_upstream \<lparr>req_path = ustr ''/pe'', req_query = Map.empty\<rparr> fresh_session =
     (Inr \<lparr>status = 400, body = Error_body (ustr ''missing tickers param'')\<rparr>, fresh_session)"
    by blast
  from pe_ticker_list_and_entries [where qs = "req_query (pe_request (ustr '' , ,''))" and up = flaky_upstream
      and s = fresh_session, OF 2] 4
  have b: "do_GET flaky_upstream (pe_request (ustr '' , ,'')) fresh_session =
     (Inr \<lparr>status = 400, body = Error_body (ustr ''missing tickers param'')\<rparr>, fresh_session)"
    unfolding 6 [of "ustr '' , ,''", symmetric] by blast
  from pe_ticker_list_and_entries [where qs = "req_query (pe_request (ustr ''A, B ,,A''))" and up = flaky_upstream
      and s = fresh_session, OF 3] 5
  have c: "tickers_as_specified (ustr ''A, B ,,A'') = [ustr ''A'', ustr ''B'', ustr ''A''] \<and>
   (\<exists>result s'.
      do_GET flaky_upstream (pe_request (ustr ''A, B ,,A'')) fresh_session =
        (Inr \<lparr>status = 200, body = Pe_body result\<rparr>, s') \<and>
      distinct (map fst result) \<and> set (map fst result) = {ustr ''A'', ustr ''B''})"
    unfolding 6 [of "ustr ''A, B ,,A''", symmetric] by auto
  from a b c show ?thesis by blast
qed


end
